theory Spec2Isabelle
  imports Complex_Main "HOL-Library.Word" "HOL-Library.Signed_Division"
begin

section \<open>Common types\<close>

text \<open>
  A \<^verbatim>\<open>float\<close> is only ever copied from a parsed attribute array into a vertex and
  compared with \<^verbatim>\<open>==\<close>; no arithmetic is done on it. Its values are the finite ones
  (\<open>Float x\<close>, with the real number \<open>x\<close> that the value stands for), the two infinities
  (\<open>Infinity True\<close> is the negative one) and NaN. The sign of zero and the payload of a
  NaN are not told apart (\<open>+0 == -0\<close>, and the two hash alike).
  \<^verbatim>\<open>size_t\<close> is taken to be wider than 32 bits, so a list may be longer than
  \<open>2^32\<close>, while \<^verbatim>\<open>uint32_t\<close> is a 32-bit word and \<^verbatim>\<open>int\<close> a 32-bit signed integer.
\<close>

datatype float = Float real | Infinity bool | NaN

text \<open>The literals \<open>0\<close>, \<open>1\<close> and \<open>- 1\<close> of type \<^verbatim>\<open>float\<close>.\<close>

instantiation float :: "{zero, one, uminus}"
begin

definition zero_float :: float where
  "zero_float = Float 0"

definition one_float :: float where
  "one_float = Float 1"

definition uminus_float :: "float \<Rightarrow> float" where
  "uminus_float x = (case x of Float a \<Rightarrow> Float (- a) | Infinity s \<Rightarrow> Infinity (\<not> s) | NaN \<Rightarrow> NaN)"

instance ..

end

text \<open>\<^verbatim>\<open>==\<close> on \<^verbatim>\<open>float\<close>: NaN is equal to nothing, not even to itself.\<close>

definition float_eq :: "float \<Rightarrow> float \<Rightarrow> bool" where
  "float_eq x y = (x \<noteq> NaN \<and> y \<noteq> NaN \<and> x = y)"

type_synonym uint32_t = "32 word"

datatype vec2 = vec2 float float
datatype vec3 = vec3 float float float

text \<open>\<^verbatim>\<open>==\<close> on \<^verbatim>\<open>glm::vec2\<close> and \<^verbatim>\<open>glm::vec3\<close>: every component is equal.\<close>

fun vec2_eq :: "vec2 \<Rightarrow> vec2 \<Rightarrow> bool" where
  "vec2_eq (vec2 a b) (vec2 a' b') = (float_eq a a' \<and> float_eq b b')"

fun vec3_eq :: "vec3 \<Rightarrow> vec3 \<Rightarrow> bool" where
  "vec3_eq (vec3 a b c) (vec3 a' b' c') = (float_eq a a' \<and> float_eq b b' \<and> float_eq c c')"

text \<open>
  \<^verbatim>\<open>throw std::runtime_error(msg)\<close>, a failed \<^verbatim>\<open>assert\<close> (assertions are compiled in),
  and undefined behaviour of the language (a vector subscript out of range, a signed
  overflow, a division by zero, a null pointer dereferenced, the end of a function that
  returns a value reached without a \<^verbatim>\<open>return\<close>).
\<close>

datatype error =
    runtime_error string
  | assertion_failure string
  | undefined_behaviour

section \<open>model.hpp, model.cpp\<close>

subsection \<open>Data\<close>

record Vertex =
  position :: vec3
  color :: vec3
  normal :: vec3
  uv :: vec2

text \<open>\<^verbatim>\<open>Vertex::operator==\<close>: the four members are equal.\<close>

definition Vertex_eq :: "Vertex \<Rightarrow> Vertex \<Rightarrow> bool" where
  "Vertex_eq v other =
     (vec3_eq (position v) (position other) \<and> vec3_eq (color v) (color other) \<and>
      vec3_eq (normal v) (normal other) \<and> vec2_eq (uv v) (uv other))"

text \<open>\<^verbatim>\<open>Vertex vertexInstance = {}\<close>: every member value-initialised.\<close>

definition Vertex_default :: Vertex where
  "Vertex_default =
     \<lparr>position = vec3 0 0 0, color = vec3 0 0 0, normal = vec3 0 0 0, uv = vec2 0 0\<rparr>"

text \<open>
  The parser's output (\<^verbatim>\<open>tinyobj::attrib_t\<close>, \<^verbatim>\<open>index_t\<close>, \<^verbatim>\<open>mesh_t\<close>, \<^verbatim>\<open>shape_t\<close>), with
  the members that \<^verbatim>\<open>loadModel\<close> reads.
\<close>

record attrib_t =
  vertices :: "float list"
  normals :: "float list"
  texcoords :: "float list"
  colors :: "float list"

record index_t =
  vertex_index :: int
  normal_index :: int
  texcoord_index :: int

record mesh_t =
  indices :: "index_t list"

record shape_t =
  mesh :: mesh_t

text \<open>
  What \<^verbatim>\<open>tinyobj::LoadObj(&attrib, &shapes, &materials, &warn, &err, path)\<close> leaves
  behind: its return value and its out-parameters. The parser is an external library;
  \<^verbatim>\<open>loadModel\<close> below takes it as a function of the file path.
\<close>

record LoadObj_result =
  ret :: bool
  attrib :: attrib_t
  shapes :: "shape_t list"
  warn :: string
  err :: string

record Builder =
  vertices :: "Vertex list"
  indices :: "uint32_t list"

subsection \<open>Builder::loadModel\<close>

definition INT_MAX :: int where
  "INT_MAX = 2147483647"

text \<open>
  \<^verbatim>\<open>v[k * i + d]\<close> for a \<^verbatim>\<open>std::vector<float> v\<close> and \<^verbatim>\<open>int\<close> operands with \<open>i \<ge> 0\<close>:
  the subscript is computed in \<^verbatim>\<open>int\<close> (overflow is undefined) and must be in range.
\<close>

definition subscript :: "float list \<Rightarrow> int \<Rightarrow> error + float" where
  "subscript v j =
     (if 0 \<le> j \<and> j \<le> INT_MAX \<and> nat j < length v then Inr (v ! nat j)
      else Inl undefined_behaviour)"

text \<open>Three consecutive floats \<^verbatim>\<open>{ v[j], v[j + 1], v[j + 2] }\<close>, read in that order.\<close>

definition read3 :: "float list \<Rightarrow> int \<Rightarrow> error + vec3" where
  "read3 v j =
     (case subscript v j of
        Inl e \<Rightarrow> Inl e
      | Inr a \<Rightarrow>
         (case subscript v (j + 1) of
            Inl e \<Rightarrow> Inl e
          | Inr b \<Rightarrow>
             (case subscript v (j + 2) of
                Inl e \<Rightarrow> Inl e
              | Inr c \<Rightarrow> Inr (vec3 a b c))))"

definition read2 :: "float list \<Rightarrow> int \<Rightarrow> error + vec2" where
  "read2 v j =
     (case subscript v j of
        Inl e \<Rightarrow> Inl e
      | Inr a \<Rightarrow>
         (case subscript v (j + 1) of
            Inl e \<Rightarrow> Inl e
          | Inr b \<Rightarrow> Inr (vec2 a b)))"

text \<open>
  The first half of the loop body: the vertex synthesised for one raw index triple.
  The three \<^verbatim>\<open>if\<close> blocks run in the source's order. In the first block
  \<^verbatim>\<open>colorIndex = 3 * index.vertex_index + 2\<close> is the subscript that the position read
  has just used, so it is a non-negative \<^verbatim>\<open>int\<close> and its comparison with
  \<^verbatim>\<open>attrib.colors.size()\<close> is the comparison of natural numbers. The second block reads
  \<^verbatim>\<open>attrib.vertices\<close>, as the source does.
\<close>

definition set_position_color :: "attrib_t \<Rightarrow> index_t \<Rightarrow> Vertex \<Rightarrow> error + Vertex" where
  "set_position_color a i v =
     (if vertex_index i \<ge> 0 then
        (case read3 (attrib_t.vertices a) (3 * vertex_index i) of
           Inl e \<Rightarrow> Inl e
         | Inr p \<Rightarrow>
            (let v1 = v\<lparr>position := p\<rparr>;
                 colorIndex = 3 * vertex_index i + 2
             in if nat colorIndex < length (colors a) then
                  (case read3 (colors a) (colorIndex - 2) of
                     Inl e \<Rightarrow> Inl e
                   | Inr c \<Rightarrow> Inr (v1\<lparr>color := c\<rparr>))
                else Inr (v1\<lparr>color := vec3 1 1 1\<rparr>)))
      else Inr v)"

definition set_normal :: "attrib_t \<Rightarrow> index_t \<Rightarrow> Vertex \<Rightarrow> error + Vertex" where
  "set_normal a i v =
     (if normal_index i \<ge> 0 then
        (case read3 (attrib_t.vertices a) (3 * normal_index i) of
           Inl e \<Rightarrow> Inl e
         | Inr n \<Rightarrow> Inr (v\<lparr>normal := n\<rparr>))
      else Inr v)"

definition set_uv :: "attrib_t \<Rightarrow> index_t \<Rightarrow> Vertex \<Rightarrow> error + Vertex" where
  "set_uv a i v =
     (if texcoord_index i \<ge> 0 then
        (case read2 (texcoords a) (2 * texcoord_index i) of
           Inl e \<Rightarrow> Inl e
         | Inr t \<Rightarrow> Inr (v\<lparr>uv := t\<rparr>))
      else Inr v)"

definition vertexInstance :: "attrib_t \<Rightarrow> index_t \<Rightarrow> error + Vertex" where
  "vertexInstance a i =
     (case set_position_color a i Vertex_default of
        Inl e \<Rightarrow> Inl e
      | Inr v1 \<Rightarrow>
         (case set_normal a i v1 of
            Inl e \<Rightarrow> Inl e
          | Inr v2 \<Rightarrow> set_uv a i v2))"

text \<open>
  \<^verbatim>\<open>std::unordered_map<Vertex, uint32_t>\<close>: the entries, in the order of their insertion.
  The key equality is \<^verbatim>\<open>Vertex::operator==\<close>. The hash is \<^verbatim>\<open>std::hash<Vertex>\<close> of
  \<^verbatim>\<open>model.cpp\<close>, which calls \<^verbatim>\<open>hashCombine\<close> on the four members of the key.
  Modelled from the spec: \<^verbatim>\<open>utils.hpp\<close> (\<^verbatim>\<open>hashCombine\<close>) is not among the sources; two keys
  that compare equal are taken to have one hash, so a lookup finds a stored key exactly
  when one compares equal to the key looked up. A key with a NaN member compares equal to
  no key, not even to itself: it is never found, and may be stored many times.
\<close>

type_synonym unordered_map = "(Vertex \<times> uint32_t) list"

fun lookup :: "unordered_map \<Rightarrow> Vertex \<Rightarrow> uint32_t option" where
  "lookup [] v = None"
| "lookup ((k, n) # m) v = (if Vertex_eq k v then Some n else lookup m v)"

text \<open>\<^verbatim>\<open>m.count(v)\<close>: 1 if a key equal to \<open>v\<close> is stored, 0 otherwise.\<close>

definition count :: "unordered_map \<Rightarrow> Vertex \<Rightarrow> nat" where
  "count m v = (case lookup m v of None \<Rightarrow> 0 | Some n \<Rightarrow> 1)"

text \<open>
  \<^verbatim>\<open>m[v]\<close> read: the value stored for \<open>v\<close>; if no key equal to \<open>v\<close> is stored, \<open>v\<close> is
  inserted first, with the value-initialised \<open>0\<close>.
\<close>

definition operator_subscript :: "unordered_map \<Rightarrow> Vertex \<Rightarrow> uint32_t \<times> unordered_map" where
  "operator_subscript m v =
     (case lookup m v of None \<Rightarrow> (0, m @ [(v, 0)]) | Some n \<Rightarrow> (n, m))"

text \<open>\<^verbatim>\<open>m[v] = n\<close>: the same, and then the value is overwritten.\<close>

definition assign :: "unordered_map \<Rightarrow> Vertex \<Rightarrow> uint32_t \<Rightarrow> unordered_map" where
  "assign m v n =
     (case lookup m v of
        None \<Rightarrow> m @ [(v, n)]
      | Some n' \<Rightarrow> map (\<lambda>(k, x). if Vertex_eq k v then (k, n) else (k, x)) m)"

text \<open>
  The state of the loop: the builder's two vectors and the local
  \<^verbatim>\<open>std::unordered_map<Vertex, uint32_t> uniqueVertices\<close>.
\<close>

type_synonym loop_state = "Vertex list \<times> uint32_t list \<times> unordered_map"

text \<open>
  The second half of the loop body. When \<^verbatim>\<open>uniqueVertices.count(vertexInstance) == 0\<close> the
  vertex is stored under \<^verbatim>\<open>static_cast<uint32_t>(vertices.size())\<close> and pushed; then
  \<^verbatim>\<open>indices.push_back(uniqueVertices[vertexInstance])\<close> pushes what \<^verbatim>\<open>operator[]\<close> finds
  for it.
\<close>

definition emit :: "Vertex \<Rightarrow> loop_state \<Rightarrow> loop_state" where
  "emit v s =
     (case s of (vs, is, uniqueVertices) \<Rightarrow>
        (case (if count uniqueVertices v = 0
               then (vs @ [v], assign uniqueVertices v (of_nat (length vs)))
               else (vs, uniqueVertices)) of
           (vs1, m1) \<Rightarrow>
             (case operator_subscript m1 v of
                (n, m2) \<Rightarrow> (vs1, is @ [n], m2))))"

text \<open>The inner loop, over the raw index triples of one shape, stopping at a fault.\<close>

fun mesh_loop :: "attrib_t \<Rightarrow> index_t list \<Rightarrow> loop_state \<Rightarrow> error + loop_state" where
  "mesh_loop a [] s = Inr s"
| "mesh_loop a (i # rest) s =
     (case vertexInstance a i of
        Inl e \<Rightarrow> Inl e
      | Inr v \<Rightarrow> mesh_loop a rest (emit v s))"

text \<open>The outer loop, over the shapes.\<close>

fun shapes_loop :: "attrib_t \<Rightarrow> shape_t list \<Rightarrow> loop_state \<Rightarrow> error + loop_state" where
  "shapes_loop a [] s = Inr s"
| "shapes_loop a (shape # rest) s =
     (case mesh_loop a (mesh_t.indices (mesh shape)) s of
        Inl e \<Rightarrow> Inl e
      | Inr s' \<Rightarrow> shapes_loop a rest s')"

text \<open>
  \<^verbatim>\<open>void Builder::loadModel(const std::string& filepath)\<close>. The result pairs how the call
  ends (\<open>Inr ()\<close>: it returns) with the builder it leaves. A failed parse throws before
  the builder is touched; a fault inside the loops leaves the cleared builder (what the
  vectors hold then is of no consequence).
\<close>

definition loadModel ::
  "(string \<Rightarrow> LoadObj_result) \<Rightarrow> string \<Rightarrow> Builder \<Rightarrow> (error + unit) \<times> Builder" where
  "loadModel LoadObj filepath b =
     (let r = LoadObj filepath
      in if \<not> ret r then (Inl (runtime_error (warn r @ err r)), b)
         else
           (let b0 = b\<lparr>vertices := [], indices := []\<rparr>
            in case shapes_loop (attrib r) (shapes r) ([], [], []) of
                 Inl e \<Rightarrow> (Inl e, b0)
               | Inr (vs, is, uniqueVertices) \<Rightarrow>
                   (Inr (), b0\<lparr>vertices := vs, indices := is\<rparr>)))"

text \<open>All raw index triples of a parse, in the order in which the two loops visit them.\<close>

definition triples :: "shape_t list \<Rightarrow> index_t list" where
  "triples ss = concat (map (\<lambda>shape. mesh_t.indices (mesh shape)) ss)"


subsection \<open>The model class\<close>

text \<open>
  The members of \<^verbatim>\<open>model\<close>. A device buffer is modelled by the data uploaded into it
  (\<open>None\<close>: the buffer has not been created).
\<close>

record model =
  vertexBuffer :: "Vertex list option"
  vertexCount :: uint32_t
  hasIndexBuffer :: bool
  indexBuffer :: "uint32_t list option"
  indexCount :: uint32_t

text \<open>
  \<^verbatim>\<open>createVertexBuffers\<close>: the count is narrowed to 32 bits, then asserted to be at least 3.
  The staging copy is \<^verbatim>\<open>sizeof(vertices[0]) * vertexCount\<close> bytes long, that is the first
  \<^verbatim>\<open>vertexCount\<close> vertices.
\<close>

definition createVertexBuffers :: "Vertex list \<Rightarrow> model \<Rightarrow> (error + unit) \<times> model" where
  "createVertexBuffers vs m =
     (let m1 = m\<lparr>vertexCount := of_nat (length vs)\<rparr>
      in if \<not> (vertexCount m1 \<ge> 3)
         then (Inl (assertion_failure ''Vertex count must be at least 3''), m1)
         else (Inr (), m1\<lparr>vertexBuffer := Some (take (unat (vertexCount m1)) vs)\<rparr>))"

text \<open>\<^verbatim>\<open>createIndexBuffer\<close>: returns early, creating nothing, when the narrowed count is 0.\<close>

definition createIndexBuffer :: "uint32_t list \<Rightarrow> model \<Rightarrow> model" where
  "createIndexBuffer is m =
     (let m1 = m\<lparr>indexCount := of_nat (length is)\<rparr>;
          m2 = m1\<lparr>hasIndexBuffer := (indexCount m1 > 0)\<rparr>
      in if \<not> hasIndexBuffer m2 then m2
         else m2\<lparr>indexBuffer := Some (take (unat (indexCount m2)) is)\<rparr>)"

text \<open>
  The constructor. \<^verbatim>\<open>hasIndexBuffer\<close> starts as \<^verbatim>\<open>false\<close>; the two counts have no
  initialiser and are assigned before they are read.
\<close>

definition model_members :: model where
  "model_members =
     \<lparr>vertexBuffer = None, vertexCount = 0, hasIndexBuffer = False,
      indexBuffer = None, indexCount = 0\<rparr>"

definition model_new :: "Builder \<Rightarrow> (error + unit) \<times> model" where
  "model_new builderInstance =
     (case createVertexBuffers (vertices builderInstance) model_members of
        (Inl e, m1) \<Rightarrow> (Inl e, m1)
      | (Inr u, m1) \<Rightarrow> (Inr (), createIndexBuffer (indices builderInstance) m1))"

text \<open>
  The commands that \<^verbatim>\<open>bind\<close> and \<^verbatim>\<open>draw\<close> record, with their arguments after the command
  buffer (a buffer argument is left out: each command names the model's own buffer):
  \<^verbatim>\<open>vkCmdBindVertexBuffers(cb, firstBinding, bindingCount, buffers, offsets)\<close>,
  \<^verbatim>\<open>vkCmdBindIndexBuffer(cb, buffer, offset, indexType)\<close>,
  \<^verbatim>\<open>vkCmdDrawIndexed(cb, indexCount, instanceCount, firstIndex, vertexOffset,
  firstInstance)\<close> and \<^verbatim>\<open>vkCmdDraw(cb, vertexCount, instanceCount, firstVertex,
  firstInstance)\<close>. A command buffer is the list of the commands recorded into it.
\<close>

datatype VkIndexType = VK_INDEX_TYPE_UINT16 | VK_INDEX_TYPE_UINT32

datatype command =
    vkCmdBindVertexBuffers uint32_t uint32_t "nat list"
  | vkCmdBindIndexBuffer nat VkIndexType
  | vkCmdDrawIndexed uint32_t uint32_t uint32_t int uint32_t
  | vkCmdDraw uint32_t uint32_t uint32_t uint32_t

definition bind :: "model \<Rightarrow> command list \<Rightarrow> command list" where
  "bind m commandBuffer =
     (let cb1 = commandBuffer @ [vkCmdBindVertexBuffers 0 1 [0]]
      in if hasIndexBuffer m then cb1 @ [vkCmdBindIndexBuffer 0 VK_INDEX_TYPE_UINT32] else cb1)"

definition draw :: "model \<Rightarrow> command list \<Rightarrow> command list" where
  "draw m commandBuffer =
     (if hasIndexBuffer m then commandBuffer @ [vkCmdDrawIndexed (indexCount m) 1 0 0 0]
      else commandBuffer @ [vkCmdDraw (vertexCount m) 1 0 0])"

section \<open>renderer.cpp\<close>

subsection \<open>Data and collaborators\<close>

type_synonym VkResult = int

definition VK_SUCCESS :: VkResult where
  "VK_SUCCESS = 0"

definition VK_SUBOPTIMAL_KHR :: VkResult where
  "VK_SUBOPTIMAL_KHR = 1000001003"

definition VK_ERROR_OUT_OF_DATE_KHR :: VkResult where
  "VK_ERROR_OUT_OF_DATE_KHR = - 1000001004"

record VkExtent2D =
  width :: uint32_t
  height :: uint32_t

datatype VkCommandBuffer = nullptr | handle nat

datatype swapchain = swapchain VkExtent2D

text \<open>
  Modelled from the spec: \<^verbatim>\<open>window.hpp\<close> is not among the sources. The window exposes its
  current drawable extent and a "was resized" flag with a reset. What the windowing
  system will report is an input: \<open>extents w k\<close> is the answer to the \<open>k\<close>-th call of
  \<^verbatim>\<open>getExtent\<close>, and \<open>polls w\<close> counts the calls made so far.
\<close>

record window =
  extents :: "nat \<Rightarrow> VkExtent2D"
  polls :: nat
  framebufferResized :: bool

text \<open>
  The calls that leave the renderer, in the order in which they are made; the log is
  what an observer of the device and of the window system sees.
\<close>

datatype call =
    window_getExtent VkExtent2D
  | glfwWaitEvents
  | vkDeviceWaitIdle
  | swapchain_new VkExtent2D bool
  | swapchain_compareSwapFormats
  | swapchain_acquireNextImage
  | vkBeginCommandBuffer VkCommandBuffer
  | vkEndCommandBuffer VkCommandBuffer
  | swapchain_submitCommandBuffers VkCommandBuffer uint32_t
  | window_wasWindowResized
  | window_resetWindowResizedFlag

text \<open>
  \<^verbatim>\<open>swapchain.hpp\<close> and the Vulkan library are not among the sources: what they answer
  is a parameter of \<^verbatim>\<open>beginFrame\<close>, \<^verbatim>\<open>endFrame\<close> and \<^verbatim>\<open>recreateSwapchain\<close> (each of
  these is asked at most once per call):
  the status of \<^verbatim>\<open>acquireNextImage\<close> and the image index it writes, the results of
  \<^verbatim>\<open>vkBeginCommandBuffer\<close>, \<^verbatim>\<open>vkEndCommandBuffer\<close> and \<^verbatim>\<open>submitCommandBuffers\<close>, and whether
  \<^verbatim>\<open>compareSwapFormats\<close> finds the old and the new swapchain's formats equal.
\<close>

record responses =
  acquireNextImage_result :: "VkResult \<times> uint32_t"
  vkBeginCommandBuffer_result :: VkResult
  vkEndCommandBuffer_result :: VkResult
  submitCommandBuffers_result :: VkResult
  compareSwapFormats_result :: bool

record renderer =
  windowInstance :: window
  swapchainInstance :: "swapchain option"
  commandBuffers :: "VkCommandBuffer list"
  currentImageIndex :: uint32_t
  currentFrameIndex :: int
  isFrameStarted :: bool
  calls :: "call list"

definition do_call :: "call \<Rightarrow> renderer \<Rightarrow> renderer" where
  "do_call c r = r\<lparr>calls := calls r @ [c]\<rparr>"

text \<open>
  Modelled from the spec: the three operations of the window that the renderer calls,
  \<^verbatim>\<open>getExtent\<close> (the current drawable extent), \<^verbatim>\<open>wasWindowResized\<close> (the flag) and
  \<^verbatim>\<open>resetWindowResizedFlag\<close> (its reset), each with its entry in the log.
\<close>

definition getExtent :: "renderer \<Rightarrow> VkExtent2D \<times> renderer" where
  "getExtent r =
     (let w = windowInstance r; e = extents w (polls w)
      in (e, do_call (window_getExtent e) (r\<lparr>windowInstance := w\<lparr>polls := Suc (polls w)\<rparr>\<rparr>)))"

definition wasWindowResized :: "renderer \<Rightarrow> bool \<times> renderer" where
  "wasWindowResized r = (framebufferResized (windowInstance r), do_call window_wasWindowResized r)"

definition resetWindowResizedFlag :: "renderer \<Rightarrow> renderer" where
  "resetWindowResizedFlag r =
     do_call window_resetWindowResizedFlag
       (r\<lparr>windowInstance := (windowInstance r)\<lparr>framebufferResized := False\<rparr>\<rparr>)"

text \<open>
  Modelled from the spec: \<^verbatim>\<open>renderer.hpp\<close> is not among the sources.
  \<^verbatim>\<open>getCurrentCommandBuffer\<close> is the command buffer of the current frame slot,
  \<^verbatim>\<open>commandBuffers[currentFrameIndex]\<close>.
\<close>

definition getCurrentCommandBuffer :: "renderer \<Rightarrow> error + VkCommandBuffer" where
  "getCurrentCommandBuffer r =
     (if 0 \<le> currentFrameIndex r \<and> nat (currentFrameIndex r) < length (commandBuffers r)
      then Inr (commandBuffers r ! nat (currentFrameIndex r))
      else Inl undefined_behaviour)"

subsection \<open>renderer::recreateSwapchain\<close>

text \<open>
  The \<^verbatim>\<open>while\<close> loop of \<^verbatim>\<open>recreateSwapchain\<close>: the body polls the extent and then blocks
  in \<^verbatim>\<open>glfwWaitEvents\<close>, which is taken to return (an event arrives). The loop runs for as
  long as the window reports degenerate extents, possibly for ever: \<open>None\<close> is the loop
  that never ends.
\<close>

partial_function (option) wait_loop :: "VkExtent2D \<Rightarrow> renderer \<Rightarrow> (VkExtent2D \<times> renderer) option" where
  "wait_loop extent r =
     (if width extent = 0 \<or> height extent = 0
      then (case getExtent r of (extent', r1) \<Rightarrow> wait_loop extent' (do_call glfwWaitEvents r1))
      else Some (extent, r))"

text \<open>
  \<^verbatim>\<open>void renderer::recreateSwapchain()\<close>. \<open>None\<close>: the call never returns;
  \<open>Some (Inl e, r')\<close>: it throws; \<open>Some (Inr (), r')\<close>: it returns.
\<close>

definition recreateSwapchain :: "responses \<Rightarrow> renderer \<Rightarrow> ((error + unit) \<times> renderer) option" where
  "recreateSwapchain env r =
     (case getExtent r of (extent0, r0) \<Rightarrow>
      (case wait_loop extent0 r0 of
        None \<Rightarrow> None
      | Some (extent, r1) \<Rightarrow>
          (let r2 = do_call vkDeviceWaitIdle r1
           in case swapchainInstance r2 of
                None \<Rightarrow>
                  Some (Inr (), do_call (swapchain_new extent False)
                                  (r2\<lparr>swapchainInstance := Some (swapchain extent)\<rparr>))
              | Some oldSwapchainInstance \<Rightarrow>
                  (let r3 = do_call (swapchain_new extent True)
                              (r2\<lparr>swapchainInstance := Some (swapchain extent)\<rparr>);
                       r4 = do_call swapchain_compareSwapFormats r3
                   in if \<not> compareSwapFormats_result env
                      then Some (Inl (runtime_error
                                  ''swap chain image or depth format has changed!''), r4)
                      else Some (Inr (), r4)))))"

subsection \<open>renderer::beginFrame and renderer::endFrame\<close>

text \<open>
  \<^verbatim>\<open>VkCommandBuffer renderer::beginFrame()\<close>. The outcome is as for
  \<^verbatim>\<open>recreateSwapchain\<close>, with the returned command buffer.
\<close>

definition beginFrame ::
  "responses \<Rightarrow> renderer \<Rightarrow> ((error + VkCommandBuffer) \<times> renderer) option" where
  "beginFrame env r =
     (if isFrameStarted r
      then Some (Inl (assertion_failure ''Can't call beginFrame while already in progress''), r)
      else
        (case swapchainInstance r of
           None \<Rightarrow> Some (Inl undefined_behaviour, r)
         | Some sc \<Rightarrow>
            (let result = fst (acquireNextImage_result env);
                 r1 = do_call swapchain_acquireNextImage
                        (r\<lparr>currentImageIndex := snd (acquireNextImage_result env)\<rparr>)
             in if result = VK_ERROR_OUT_OF_DATE_KHR then
                  (case recreateSwapchain env r1 of
                     None \<Rightarrow> None
                   | Some (Inl e, r2) \<Rightarrow> Some (Inl e, r2)
                   | Some (Inr u, r2) \<Rightarrow> Some (Inr nullptr, r2))
                else if result \<noteq> VK_SUCCESS \<and> result \<noteq> VK_SUBOPTIMAL_KHR then
                  Some (Inl (runtime_error ''failed to acquire swap chain image!''), r1)
                else
                  (let r2 = r1\<lparr>isFrameStarted := True\<rparr>
                   in case getCurrentCommandBuffer r2 of
                        Inl e \<Rightarrow> Some (Inl e, r2)
                      | Inr commandBuffer \<Rightarrow>
                          (let r3 = do_call (vkBeginCommandBuffer commandBuffer) r2
                           in if vkBeginCommandBuffer_result env \<noteq> VK_SUCCESS
                              then Some (Inl (runtime_error
                                     ''failed to begin recording command buffer!''), r3)
                              else Some (Inr commandBuffer, r3))))))"

text \<open>
  The end of \<^verbatim>\<open>renderer::endFrame()\<close>: the two assignments, and then the closing brace.
  \<^verbatim>\<open>swapchain::MAX_FRAMES_IN_FLIGHT\<close> is declared in a header that is not among the
  sources: it is the parameter \<open>MAX_FRAMES_IN_FLIGHT\<close>. The operator \<^verbatim>\<open>%\<close> truncates
  towards zero (\<open>smod\<close>); an overflow of \<^verbatim>\<open>currentFrameIndex + 1\<close> and a division by
  zero are undefined. The function is declared \<^verbatim>\<open>VkCommandBuffer renderer::endFrame()\<close> and
  its body has no \<^verbatim>\<open>return\<close> statement: after the second assignment control flows off
  the end of a function that returns a value, which is undefined behaviour too. So the
  outcome is \<open>undefined_behaviour\<close> on each path, with the renderer as it is when that
  point is reached.
\<close>

definition endFrame_end :: "int \<Rightarrow> renderer \<Rightarrow> (error + VkCommandBuffer) \<times> renderer" where
  "endFrame_end MAX_FRAMES_IN_FLIGHT r =
     (let r1 = r\<lparr>isFrameStarted := False\<rparr>
      in if INT_MAX < currentFrameIndex r1 + 1 \<or> MAX_FRAMES_IN_FLIGHT = 0
         then (Inl undefined_behaviour, r1)
         else (Inl undefined_behaviour,
               r1\<lparr>currentFrameIndex := (currentFrameIndex r1 + 1) smod MAX_FRAMES_IN_FLIGHT\<rparr>))"

text \<open>
  \<^verbatim>\<open>VkCommandBuffer renderer::endFrame()\<close>. The window's flag is asked only when the
  submission status is neither out-of-date nor suboptimal (\<^verbatim>\<open>||\<close> evaluates left to
  right and stops early).
\<close>

definition endFrame ::
  "int \<Rightarrow> responses \<Rightarrow> renderer \<Rightarrow> ((error + VkCommandBuffer) \<times> renderer) option" where
  "endFrame MAX_FRAMES_IN_FLIGHT env r =
     (if \<not> isFrameStarted r
      then Some (Inl (assertion_failure
                  ''Can't call endFrame while frame is not in progress''), r)
      else
        (case getCurrentCommandBuffer r of
           Inl e \<Rightarrow> Some (Inl e, r)
         | Inr commandBuffer \<Rightarrow>
            (let r1 = do_call (vkEndCommandBuffer commandBuffer) r
             in if vkEndCommandBuffer_result env \<noteq> VK_SUCCESS
                then Some (Inl (runtime_error ''failed to record command buffer!''), r1)
                else
                  (case swapchainInstance r1 of
                     None \<Rightarrow> Some (Inl undefined_behaviour, r1)
                   | Some sc \<Rightarrow>
                      (let r2 = do_call (swapchain_submitCommandBuffers commandBuffer
                                       (currentImageIndex r1)) r1;
                           result = submitCommandBuffers_result env;
                           recreate = (\<lambda>r'.
                             case recreateSwapchain env (resetWindowResizedFlag r') of
                               None \<Rightarrow> None
                             | Some (Inl e, r'') \<Rightarrow> Some (Inl e, r'')
                             | Some (Inr u, r'') \<Rightarrow> Some (endFrame_end MAX_FRAMES_IN_FLIGHT r''))
                       in if result = VK_ERROR_OUT_OF_DATE_KHR \<or> result = VK_SUBOPTIMAL_KHR
                          then recreate r2
                          else
                            (case wasWindowResized r2 of (resized, r3) \<Rightarrow>
                               if resized then recreate r3
                               else if result \<noteq> VK_SUCCESS
                               then Some (Inl (runtime_error
                                      ''failed to present swap chain image!''), r3)
                               else Some (endFrame_end MAX_FRAMES_IN_FLIGHT r3)))))))"

section \<open>Auxiliary definitions\<close>

text \<open>
  The invariant of the two loops of \<^verbatim>\<open>loadModel\<close>, after the vertices \<open>ws\<close> have been
  synthesised (in this order): one index has been emitted per vertex of \<open>ws\<close>; the vertex
  vector holds the vertices of \<open>ws\<close>, the keys of the map are these vertices, and no two
  entries of the vector compare equal; a vertex of the vector that compares equal to itself
  (it has no NaN member) is stored with its position narrowed to 32 bits, and the index
  emitted for such a vertex of \<open>ws\<close> is the value stored for it; the index emitted for a
  vertex with a NaN member is 0.
\<close>

definition loop_inv :: "Vertex list \<Rightarrow> loop_state \<Rightarrow> bool" where
  "loop_inv ws s =
     (case s of (vs, is, m) \<Rightarrow>
        length is = length ws \<and>
        set vs = set ws \<and>
        dom (map_of m) = set vs \<and>
        (\<forall>p < length vs. Vertex_eq (vs ! p) (vs ! p) \<longrightarrow> map_of m (vs ! p) = Some (of_nat p)) \<and>
        (\<forall>p < length vs. \<forall>q < length vs. Vertex_eq (vs ! p) (vs ! q) \<longrightarrow> p = q) \<and>
        (\<forall>k < length ws. Vertex_eq (ws ! k) (ws ! k) \<longrightarrow> map_of m (ws ! k) = Some (is ! k)) \<and>
        (\<forall>k < length ws. \<not> Vertex_eq (ws ! k) (ws ! k) \<longrightarrow> is ! k = 0))"

text \<open>
  A mesh for the examples: a square of two triangles that share two corners. There are
  four positions, one normal, four texture coordinates and colours for the first three
  positions only.
\<close>

definition quad_attrib :: attrib_t where
  "quad_attrib =
     \<lparr>attrib_t.vertices = [-1, -1, 0,  1, -1, 0,  1, 1, 0,  -1, 1, 0],
      normals = [0, 0, 1],
      texcoords = [0, 0,  1, 0,  1, 1,  0, 1],
      colors = [1, 0, 0,  0, 1, 0,  0, 0, 1]\<rparr>"

definition corner :: "int \<Rightarrow> index_t" where
  "corner k = \<lparr>vertex_index = k, normal_index = 0, texcoord_index = k\<rparr>"

definition quad_shapes :: "shape_t list" where
  "quad_shapes =
     [\<lparr>mesh = \<lparr>mesh_t.indices = [corner 0, corner 1, corner 2]\<rparr>\<rparr>,
      \<lparr>mesh = \<lparr>mesh_t.indices = [corner 0, corner 2, corner 3]\<rparr>\<rparr>]"

text \<open>A parser that knows one file and fails on every other path.\<close>

definition quad_LoadObj :: "string \<Rightarrow> LoadObj_result" where
  "quad_LoadObj path =
     (if path = ''quad.obj''
      then \<lparr>ret = True, attrib = quad_attrib, shapes = quad_shapes, warn = [], err = []\<rparr>
      else \<lparr>ret = False,
            attrib = \<lparr>attrib_t.vertices = [], normals = [], texcoords = [], colors = []\<rparr>,
            shapes = [], warn = [], err = ''Cannot open file ['' @ path @ '']''\<rparr>)"

definition quad_vertex :: "float \<Rightarrow> float \<Rightarrow> vec3 \<Rightarrow> float \<Rightarrow> float \<Rightarrow> Vertex" where
  "quad_vertex px py c u v =
     \<lparr>position = vec3 px py 0, color = c, normal = vec3 (-1) (-1) 0, uv = vec2 u v\<rparr>"

definition quad_builder :: Builder where
  "quad_builder =
     \<lparr>vertices =
        [quad_vertex (-1) (-1) (vec3 1 0 0) 0 0,
         quad_vertex 1 (-1) (vec3 0 1 0) 1 0,
         quad_vertex 1 1 (vec3 0 0 1) 1 1,
         quad_vertex (-1) 1 (vec3 1 1 1) 0 1],
      indices = [0, 1, 2, 0, 2, 3]\<rparr>"

definition empty_builder :: Builder where
  "empty_builder = \<lparr>vertices = [], indices = []\<rparr>"


text \<open>
  A mesh with a NaN: three positions, the third with a NaN coordinate, and four raw index
  triples, the last two for the third position.
\<close>

definition nan_attrib :: attrib_t where
  "nan_attrib =
     \<lparr>attrib_t.vertices = [0, 0, 0,  1, 0, 0,  NaN, 0, 0],
      normals = [], texcoords = [], colors = []\<rparr>"

definition bare :: "int \<Rightarrow> index_t" where
  "bare k = \<lparr>vertex_index = k, normal_index = - 1, texcoord_index = - 1\<rparr>"

definition nan_LoadObj :: "string \<Rightarrow> LoadObj_result" where
  "nan_LoadObj path =
     \<lparr>ret = True, attrib = nan_attrib,
      shapes = [\<lparr>mesh = \<lparr>mesh_t.indices = [bare 0, bare 1, bare 2, bare 2]\<rparr>\<rparr>],
      warn = [], err = []\<rparr>"

definition bare_vertex :: "float \<Rightarrow> Vertex" where
  "bare_vertex x =
     \<lparr>position = vec3 x 0 0, color = vec3 1 1 1, normal = vec3 0 0 0, uv = vec2 0 0\<rparr>"

text \<open>
  A mesh with more than \<open>2^32\<close> different vertices: 65537 positions (the \<open>j\<close>-th is
  \<open>(3j, 3j+1, 3j+2)\<close>), 65536 texture coordinates (the \<open>j\<close>-th is \<open>(2j, 2j+1)\<close>), and
  \<open>2^32 + 1\<close> raw index triples, the \<open>k\<close>-th with the position \<open>k div 65536\<close> and the
  texture coordinate \<open>k mod 65536\<close>.
\<close>

definition big_attrib :: attrib_t where
  "big_attrib =
     \<lparr>attrib_t.vertices = map (\<lambda>j. Float (real j)) [0..<196611],
      normals = [],
      texcoords = map (\<lambda>j. Float (real j)) [0..<131072],
      colors = []\<rparr>"

definition big_index :: "nat \<Rightarrow> index_t" where
  "big_index k =
     \<lparr>vertex_index = int (k div 65536), normal_index = - 1, texcoord_index = int (k mod 65536)\<rparr>"

definition big_LoadObj :: "string \<Rightarrow> LoadObj_result" where
  "big_LoadObj path =
     \<lparr>ret = True, attrib = big_attrib,
      shapes = [\<lparr>mesh = \<lparr>mesh_t.indices = map big_index [0..<4294967297]\<rparr>\<rparr>],
      warn = [], err = []\<rparr>"

definition big_vertex :: "nat \<Rightarrow> Vertex" where
  "big_vertex k =
     \<lparr>position = vec3 (Float (real (3 * (k div 65536))))
                      (Float (real (3 * (k div 65536) + 1)))
                      (Float (real (3 * (k div 65536) + 2))),
      color = vec3 1 1 1,
      normal = vec3 0 0 0,
      uv = vec2 (Float (real (2 * (k mod 65536)))) (Float (real (2 * (k mod 65536) + 1)))\<rparr>"

text \<open>
  The condition of the \<^verbatim>\<open>while\<close> loop of \<^verbatim>\<open>recreateSwapchain\<close>: an extent of zero width
  or zero height.
\<close>

definition degenerate :: "VkExtent2D \<Rightarrow> bool" where
  "degenerate e = (width e = 0 \<or> height e = 0)"

text \<open>The renderer after the body of that loop has run \<open>k\<close> times.\<close>

definition polled :: "nat \<Rightarrow> renderer \<Rightarrow> renderer" where
  "polled k r =
     r\<lparr>windowInstance := (windowInstance r)\<lparr>polls := polls (windowInstance r) + k\<rparr>,
       calls := calls r @
         concat (map (\<lambda>j. [window_getExtent (extents (windowInstance r) (polls (windowInstance r) + j)),
                             glfwWaitEvents]) [0..<k])\<rparr>"

text \<open>
  The renderer after a call of \<^verbatim>\<open>recreateSwapchain\<close> whose loop ends with the extent of
  the window's \<open>k\<close>-th next answer, and how that call ends.
\<close>

definition recreated :: "nat \<Rightarrow> renderer \<Rightarrow> renderer" where
  "recreated k r =
     (let w = windowInstance r; p = polls w; e = extents w (p + k)
      in r\<lparr>windowInstance := w\<lparr>polls := p + Suc k\<rparr>,
           swapchainInstance := Some (swapchain e),
           calls := calls r @
             window_getExtent (extents w p) #
             concat (map (\<lambda>j. [window_getExtent (extents w (p + Suc j)), glfwWaitEvents]) [0..<k]) @
             vkDeviceWaitIdle #
             swapchain_new e (swapchainInstance r \<noteq> None) #
             (if swapchainInstance r = None then [] else [swapchain_compareSwapFormats])\<rparr>)"

definition recreate_outcome :: "responses \<Rightarrow> renderer \<Rightarrow> error + unit" where
  "recreate_outcome env r =
     (if swapchainInstance r \<noteq> None \<and> \<not> compareSwapFormats_result env
      then Inl (runtime_error ''swap chain image or depth format has changed!'')
      else Inr ())"

text \<open>
  The renderer after \<^verbatim>\<open>acquireNextImage\<close> has been called and has written the image
  index.
\<close>

definition acquired :: "responses \<Rightarrow> renderer \<Rightarrow> renderer" where
  "acquired env r =
     do_call swapchain_acquireNextImage (r\<lparr>currentImageIndex := snd (acquireNextImage_result env)\<rparr>)"

text \<open>
  The renderer after \<^verbatim>\<open>endFrame\<close> has ended the recording and submitted the command
  buffer.
\<close>

definition submitted :: "VkCommandBuffer \<Rightarrow> renderer \<Rightarrow> renderer" where
  "submitted commandBuffer r =
     do_call (swapchain_submitCommandBuffers commandBuffer (currentImageIndex r))
       (do_call (vkEndCommandBuffer commandBuffer) r)"

text \<open>
  Windows for the examples: one that reports \<open>0\<times>0\<close>, \<open>0\<times>0\<close> and then \<open>800\<times>600\<close>, and one
  that stays minimised. A renderer before its first swapchain, and one between frames
  with two frame slots.
\<close>

definition mock_window :: window where
  "mock_window =
     \<lparr>extents = (\<lambda>n. if n < 2 then \<lparr>width = 0, height = 0\<rparr> else \<lparr>width = 800, height = 600\<rparr>),
      polls = 0, framebufferResized = False\<rparr>"

definition minimised_window :: window where
  "minimised_window =
     \<lparr>extents = (\<lambda>n. \<lparr>width = 0, height = 0\<rparr>), polls = 0, framebufferResized = False\<rparr>"

definition fresh_renderer :: "window \<Rightarrow> renderer" where
  "fresh_renderer w =
     \<lparr>windowInstance = w, swapchainInstance = None, commandBuffers = [],
      currentImageIndex = 0, currentFrameIndex = 0, isFrameStarted = False, calls = []\<rparr>"

definition idle_renderer :: "window \<Rightarrow> renderer" where
  "idle_renderer w =
     \<lparr>windowInstance = w,
      swapchainInstance = Some (swapchain \<lparr>width = 640, height = 480\<rparr>),
      commandBuffers = [handle 1, handle 2],
      currentImageIndex = 0, currentFrameIndex = 0, isFrameStarted = False, calls = []\<rparr>"

definition answers :: "VkResult \<Rightarrow> VkResult \<Rightarrow> responses" where
  "answers acquire_status submit_status =
     \<lparr>acquireNextImage_result = (acquire_status, 1),
      vkBeginCommandBuffer_result = VK_SUCCESS,
      vkEndCommandBuffer_result = VK_SUCCESS,
      submitCommandBuffers_result = submit_status,
      compareSwapFormats_result = True\<rparr>"

section \<open>Vertex::operator== and the map\<close>

lemma vec3_eq_iff: "vec3_eq x y = (x = y \<and> vec3_eq y y)"
  by (cases x; cases y) (auto simp: float_eq_def)

lemma vec2_eq_iff: "vec2_eq x y = (x = y \<and> vec2_eq y y)"
  by (cases x; cases y) (auto simp: float_eq_def)

lemma Vertex_eq_iff: "Vertex_eq k v = (k = v \<and> Vertex_eq v v)"
  using vec3_eq_iff [of "position k" "position v"] vec3_eq_iff [of "color k" "color v"]
    vec3_eq_iff [of "normal k" "normal v"] vec2_eq_iff [of "uv k" "uv v"]
  by (cases k; cases v) (auto simp: Vertex_eq_def)

lemma lookup_map_of: "lookup m v = (if Vertex_eq v v then map_of m v else None)"
proof (induction m)
  case Nil
  show ?case by simp
next
  case (Cons e m)
  obtain k n where e: "e = (k, n)" by (cases e) auto
  show ?case using Cons.IH Vertex_eq_iff [of k v] by (auto simp: e)
qed

lemma emit_found:
  assumes "Vertex_eq v v" and "map_of m v = Some n"
  shows "emit v (vs, is, m) = (vs, is @ [n], m)"
  using assms by (simp add: emit_def count_def operator_subscript_def lookup_map_of)

lemma emit_new:
  assumes "Vertex_eq v v" and "map_of m v = None"
  shows "emit v (vs, is, m) =
     (vs @ [v], is @ [of_nat (length vs)], m @ [(v, of_nat (length vs))])"
  using assms
  by (simp add: emit_def count_def operator_subscript_def assign_def lookup_map_of map_add_def)

lemma emit_NaN:
  assumes "\<not> Vertex_eq v v"
  shows "emit v (vs, is, m) =
     (vs @ [v], is @ [0], m @ [(v, of_nat (length vs)), (v, 0)])"
  using assms
  by (simp add: emit_def count_def operator_subscript_def assign_def lookup_map_of)

lemma loop_inv_emit:
  assumes "loop_inv ws s"
  shows "loop_inv (ws @ [v]) (emit v s)"
proof -
  obtain vs "is" m where s: "s = (vs, is, m)" by (cases s) auto
  from assms have len: "length is = length ws" and sv: "set vs = set ws"
    and dm: "dom (map_of m) = set vs"
    and pos: "\<forall>p < length vs. Vertex_eq (vs ! p) (vs ! p) \<longrightarrow> map_of m (vs ! p) = Some (of_nat p)"
    and uniq: "\<forall>p < length vs. \<forall>q < length vs. Vertex_eq (vs ! p) (vs ! q) \<longrightarrow> p = q"
    and ix: "\<forall>k < length ws. Vertex_eq (ws ! k) (ws ! k) \<longrightarrow> map_of m (ws ! k) = Some (is ! k)"
    and nan: "\<forall>k < length ws. \<not> Vertex_eq (ws ! k) (ws ! k) \<longrightarrow> is ! k = 0"
    by (auto simp: loop_inv_def s)
  have old: "(ws @ [v]) ! k = ws ! k \<and> (is @ [n]) ! k = is ! k" if "k < length ws" for k n
    using that len by (simp add: nth_append)
  have last: "(ws @ [v]) ! k = v \<and> (is @ [n]) ! k = n"
    if "k < length (ws @ [v])" "\<not> k < length ws" for k n
  proof -
    from that have "k = length ws" by simp
    then show ?thesis using len by (simp add: nth_append)
  qed
  consider (found) n where "Vertex_eq v v" "map_of m v = Some n"
    | (new) "Vertex_eq v v" "map_of m v = None"
    | (NaN) "\<not> Vertex_eq v v"
    by (cases "map_of m v") auto
  then show ?thesis
  proof cases
    case found
    then have vin: "v \<in> set ws" using dm sv by auto
    have e: "emit v s = (vs, is @ [n], m)"
      unfolding s using found by (rule emit_found)
    have 1: "length (is @ [n]) = length (ws @ [v])" using len by simp
    have 2: "set vs = set (ws @ [v])" using sv vin by auto
    have 6: "\<forall>k < length (ws @ [v]). Vertex_eq ((ws @ [v]) ! k) ((ws @ [v]) ! k) \<longrightarrow>
               map_of m ((ws @ [v]) ! k) = Some ((is @ [n]) ! k)"
    proof (intro allI impI)
      fix k assume k: "k < length (ws @ [v])"
        and e: "Vertex_eq ((ws @ [v]) ! k) ((ws @ [v]) ! k)"
      show "map_of m ((ws @ [v]) ! k) = Some ((is @ [n]) ! k)"
      proof (cases "k < length ws")
        case True
        with ix e old [OF True, of n] show ?thesis by simp
      next
        case False
        with last [OF k False, of n] found show ?thesis by simp
      qed
    qed
    have 7: "\<forall>k < length (ws @ [v]). \<not> Vertex_eq ((ws @ [v]) ! k) ((ws @ [v]) ! k) \<longrightarrow>
               (is @ [n]) ! k = 0"
    proof (intro allI impI)
      fix k assume k: "k < length (ws @ [v])"
        and e: "\<not> Vertex_eq ((ws @ [v]) ! k) ((ws @ [v]) ! k)"
      show "(is @ [n]) ! k = 0"
      proof (cases "k < length ws")
        case True
        with nan e old [OF True, of n] show ?thesis by simp
      next
        case False
        with last [OF k False, of n] found e show ?thesis by simp
      qed
    qed
    show ?thesis unfolding e loop_inv_def prod.case
      using 1 2 dm pos uniq 6 7 by (intro conjI)
  next
    case new
    then have nin: "v \<notin> set vs" using dm by auto
    let ?n = "of_nat (length vs) :: uint32_t"
    let ?m = "m @ [(v, ?n)]"
    have e: "emit v s = (vs @ [v], is @ [?n], ?m)"
      unfolding s using new by (rule emit_new)
    have mo: "map_of ?m x = (if x = v then Some ?n else map_of m x)" for x
      using new(2) by (cases "map_of m x") (auto simp: map_add_def)
    have 1: "length (is @ [?n]) = length (ws @ [v])" using len by simp
    have 2: "set (vs @ [v]) = set (ws @ [v])" using sv by simp
    have 3: "dom (map_of ?m) = set (vs @ [v])" using dm by auto
    have 4: "\<forall>p < length (vs @ [v]). Vertex_eq ((vs @ [v]) ! p) ((vs @ [v]) ! p) \<longrightarrow>
                map_of ?m ((vs @ [v]) ! p) = Some (of_nat p)"
    proof (intro allI impI)
      fix p assume p: "p < length (vs @ [v])"
        and e: "Vertex_eq ((vs @ [v]) ! p) ((vs @ [v]) ! p)"
      show "map_of ?m ((vs @ [v]) ! p) = Some (of_nat p)"
      proof (cases "p < length vs")
        case True
        then have "vs ! p \<noteq> v" using nin by (metis nth_mem)
        then show ?thesis using True pos e by (simp add: mo nth_append del: map_of_append)
      next
        case False
        then have "p = length vs" using p by simp
        then show ?thesis by (simp add: mo del: map_of_append)
      qed
    qed
    have 5: "\<forall>p < length (vs @ [v]). \<forall>q < length (vs @ [v]).
                Vertex_eq ((vs @ [v]) ! p) ((vs @ [v]) ! q) \<longrightarrow> p = q"
    proof (intro allI impI)
      fix p q assume p: "p < length (vs @ [v])" and q: "q < length (vs @ [v])"
        and e: "Vertex_eq ((vs @ [v]) ! p) ((vs @ [v]) ! q)"
      from e have same: "(vs @ [v]) ! p = (vs @ [v]) ! q"
        using Vertex_eq_iff by blast
      show "p = q"
      proof (cases "p < length vs")
        case True
        note P = this
        show ?thesis
        proof (cases "q < length vs")
          case True
          with P e uniq show ?thesis by (simp add: nth_append)
        next
          case False
          then have "q = length vs" using q by simp
          with same P have "vs ! p = v" by (simp add: nth_append)
          with nin P show ?thesis by (metis nth_mem)
        qed
      next
        case False
        then have pl: "p = length vs" using p by simp
        show ?thesis
        proof (cases "q < length vs")
          case True
          with same pl have "vs ! q = v" by (simp add: nth_append)
          with nin True show ?thesis by (metis nth_mem)
        next
          case False
          then show ?thesis using pl q by simp
        qed
      qed
    qed
    have 6: "\<forall>k < length (ws @ [v]). Vertex_eq ((ws @ [v]) ! k) ((ws @ [v]) ! k) \<longrightarrow>
               map_of ?m ((ws @ [v]) ! k) = Some ((is @ [?n]) ! k)"
    proof (intro allI impI)
      fix k assume k: "k < length (ws @ [v])"
        and e: "Vertex_eq ((ws @ [v]) ! k) ((ws @ [v]) ! k)"
      show "map_of ?m ((ws @ [v]) ! k) = Some ((is @ [?n]) ! k)"
      proof (cases "k < length ws")
        case True
        then have "ws ! k \<noteq> v" using nin sv by (metis nth_mem)
        with ix e old [OF True, of ?n] True show ?thesis by (simp add: mo del: map_of_append)
      next
        case False
        with last [OF k False, of ?n] show ?thesis by (simp add: mo del: map_of_append)
      qed
    qed
    have 7: "\<forall>k < length (ws @ [v]). \<not> Vertex_eq ((ws @ [v]) ! k) ((ws @ [v]) ! k) \<longrightarrow>
               (is @ [?n]) ! k = 0"
    proof (intro allI impI)
      fix k assume k: "k < length (ws @ [v])"
        and e: "\<not> Vertex_eq ((ws @ [v]) ! k) ((ws @ [v]) ! k)"
      show "(is @ [?n]) ! k = 0"
      proof (cases "k < length ws")
        case True
        with nan e old [OF True, of ?n] show ?thesis by simp
      next
        case False
        with last [OF k False, of ?n] new e show ?thesis by simp
      qed
    qed
    show ?thesis unfolding e loop_inv_def prod.case
      using 1 2 3 4 5 6 7 by (intro conjI)
  next
    case NaN
    let ?m = "m @ [(v, of_nat (length vs)), (v, 0)]"
    have e: "emit v s = (vs @ [v], is @ [0], ?m)"
      unfolding s using NaN by (rule emit_NaN)
    have mo: "map_of ?m x = map_of m x" if "x \<noteq> v" for x
      using that by (cases "map_of m x") (auto simp: map_add_def)
    have nv: "x \<noteq> v" if "Vertex_eq x x" for x using that NaN by auto
    have 1: "length (is @ [0]) = length (ws @ [v])" using len by simp
    have 2: "set (vs @ [v]) = set (ws @ [v])" using sv by simp
    have 3: "dom (map_of ?m) = set (vs @ [v])" using dm by auto
    have 4: "\<forall>p < length (vs @ [v]). Vertex_eq ((vs @ [v]) ! p) ((vs @ [v]) ! p) \<longrightarrow>
                map_of ?m ((vs @ [v]) ! p) = Some (of_nat p)"
    proof (intro allI impI)
      fix p assume p: "p < length (vs @ [v])"
        and e: "Vertex_eq ((vs @ [v]) ! p) ((vs @ [v]) ! p)"
      from nv [OF e] have ne: "(vs @ [v]) ! p \<noteq> v" .
      then have "p < length vs" using p by (cases "p = length vs") auto
      then show "map_of ?m ((vs @ [v]) ! p) = Some (of_nat p)"
        using pos e ne by (simp add: mo nth_append del: map_of_append)
    qed
    have 5: "\<forall>p < length (vs @ [v]). \<forall>q < length (vs @ [v]).
                Vertex_eq ((vs @ [v]) ! p) ((vs @ [v]) ! q) \<longrightarrow> p = q"
    proof (intro allI impI)
      fix p q assume p: "p < length (vs @ [v])" and q: "q < length (vs @ [v])"
        and e: "Vertex_eq ((vs @ [v]) ! p) ((vs @ [v]) ! q)"
      from e have same: "(vs @ [v]) ! p = (vs @ [v]) ! q"
        and eq: "Vertex_eq ((vs @ [v]) ! q) ((vs @ [v]) ! q)"
        using Vertex_eq_iff by blast+
      from nv [OF eq] have "(vs @ [v]) ! q \<noteq> v" .
      with same have "(vs @ [v]) ! p \<noteq> v" "(vs @ [v]) ! q \<noteq> v" by simp_all
      then have "p < length vs" "q < length vs"
        using p q by (cases "p = length vs"; cases "q = length vs"; auto)+
      with e uniq show "p = q" by (simp add: nth_append)
    qed
    have 6: "\<forall>k < length (ws @ [v]). Vertex_eq ((ws @ [v]) ! k) ((ws @ [v]) ! k) \<longrightarrow>
               map_of ?m ((ws @ [v]) ! k) = Some ((is @ [0]) ! k)"
    proof (intro allI impI)
      fix k assume k: "k < length (ws @ [v])"
        and e: "Vertex_eq ((ws @ [v]) ! k) ((ws @ [v]) ! k)"
      from nv [OF e] have ne: "(ws @ [v]) ! k \<noteq> v" .
      then have kl: "k < length ws" using k by (cases "k = length ws") auto
      with ix e ne old [OF kl, of 0] show "map_of ?m ((ws @ [v]) ! k) = Some ((is @ [0]) ! k)"
        by (simp add: mo del: map_of_append)
    qed
    have 7: "\<forall>k < length (ws @ [v]). \<not> Vertex_eq ((ws @ [v]) ! k) ((ws @ [v]) ! k) \<longrightarrow>
               (is @ [0]) ! k = 0"
    proof (intro allI impI)
      fix k assume k: "k < length (ws @ [v])"
        and e: "\<not> Vertex_eq ((ws @ [v]) ! k) ((ws @ [v]) ! k)"
      show "(is @ [0]) ! k = 0"
      proof (cases "k < length ws")
        case True
        with nan e old [OF True, of 0] show ?thesis by simp
      next
        case False
        with last [OF k False, of 0] show ?thesis by simp
      qed
    qed
    show ?thesis unfolding e loop_inv_def prod.case
      using 1 2 3 4 5 6 7 by (intro conjI)
  qed
qed

section \<open>Builder::loadModel: the loops\<close>

lemma mesh_loop_append:
  "mesh_loop a (xs @ ys) s =
     (case mesh_loop a xs s of Inl e \<Rightarrow> Inl e | Inr s' \<Rightarrow> mesh_loop a ys s')"
  by (induction xs arbitrary: s) (auto split: sum.splits)

lemma shapes_loop_triples: "shapes_loop a ss s = mesh_loop a (triples ss) s"
proof (induction ss arbitrary: s)
  case Nil
  show ?case by (simp add: triples_def)
next
  case (Cons sh ss)
  have "triples (sh # ss) = mesh_t.indices (mesh sh) @ triples ss"
    by (simp add: triples_def)
  then show ?case
    using Cons.IH by (simp add: mesh_loop_append split: sum.splits)
qed

lemma mesh_loop_fold:
  "mesh_loop a ts s = Inr s' \<Longrightarrow>
     \<exists>ws. map (vertexInstance a) ts = map Inr ws \<and> s' = fold emit ws s"
proof (induction ts arbitrary: s)
  case Nil
  then show ?case by simp
next
  case (Cons t ts)
  from Cons.prems obtain v where v: "vertexInstance a t = Inr v"
    and rest: "mesh_loop a ts (emit v s) = Inr s'"
    by (auto split: sum.splits)
  from Cons.IH [OF rest] obtain ws where
    "map (vertexInstance a) ts = map Inr ws" "s' = fold emit ws (emit v s)"
    by blast
  then have "map (vertexInstance a) (t # ts) = map Inr (v # ws) \<and> s' = fold emit (v # ws) s"
    using v by simp
  then show ?case by blast
qed

lemma loop_inv_fold:
  "loop_inv ws s \<Longrightarrow> loop_inv (ws @ ws') (fold emit ws' s)"
proof (induction ws' arbitrary: ws s)
  case Nil
  then show ?case by simp
next
  case (Cons v ws')
  from loop_inv_emit [OF Cons.prems] have "loop_inv (ws @ [v]) (emit v s)" .
  from Cons.IH [OF this] show ?case by simp
qed

lemma loop_inv_init: "loop_inv [] ([], [], [])"
  by (simp add: loop_inv_def)

lemma loadModel_success:
  assumes "loadModel LoadObj filepath b = (Inr (), b')"
  shows "\<exists>ws m. map (vertexInstance (attrib (LoadObj filepath)))
                   (triples (shapes (LoadObj filepath))) = map Inr ws
               \<and> loop_inv ws (vertices b', indices b', m)
               \<and> mesh_loop (attrib (LoadObj filepath)) (triples (shapes (LoadObj filepath)))
                     ([], [], []) = Inr (vertices b', indices b', m)"
proof -
  let ?r = "LoadObj filepath"
  from assms have ok: "ret ?r"
    by (auto simp: loadModel_def Let_def split: if_splits)
  from assms ok obtain vs "is" m where
    run: "shapes_loop (attrib ?r) (shapes ?r) ([], [], []) = Inr (vs, is, m)"
    and b': "b' = b\<lparr>vertices := vs, indices := is\<rparr>"
    by (auto simp: loadModel_def Let_def split: sum.splits prod.splits)
  from run have flat:
    "mesh_loop (attrib ?r) (triples (shapes ?r)) ([], [], []) = Inr (vs, is, m)"
    by (simp add: shapes_loop_triples)
  from mesh_loop_fold [OF this] obtain ws where
    ws: "map (vertexInstance (attrib ?r)) (triples (shapes ?r)) = map Inr ws"
    and f: "(vs, is, m) = fold emit ws ([], [], [])"
    by blast
  have "loop_inv ([] @ ws) (fold emit ws ([], [], []))"
    by (rule loop_inv_fold [OF loop_inv_init])
  then have "loop_inv ws (vs, is, m)" using f by simp
  then show ?thesis using ws b' flat by auto
qed

lemma mesh_loop_prefix:
  assumes "mesh_loop a (xs @ ys) s = Inr s'"
  shows "\<exists>s1. mesh_loop a xs s = Inr s1 \<and> mesh_loop a ys s1 = Inr s'"
  using assms by (auto simp: mesh_loop_append split: sum.splits)

lemma mesh_loop_inv:
  assumes "mesh_loop a ts ([], [], []) = Inr s"
  shows "\<exists>ws. map (vertexInstance a) ts = map Inr ws \<and> loop_inv ws s"
proof -
  from mesh_loop_fold [OF assms] obtain ws where
    ws: "map (vertexInstance a) ts = map Inr ws" and s: "s = fold emit ws ([], [], [])"
    by blast
  have "loop_inv ([] @ ws) (fold emit ws ([], [], []))"
    by (rule loop_inv_fold [OF loop_inv_init])
  with ws s show ?thesis by auto
qed

lemma mesh_loop_step:
  assumes run: "mesh_loop a ts ([], [], []) = Inr s'" and k: "k < length ts"
  shows "\<exists>vs is m v.
     mesh_loop a (take k ts) ([], [], []) = Inr (vs, is, m) \<and>
     vertexInstance a (ts ! k) = Inr v \<and>
     Inr ` set vs = vertexInstance a ` set (take k ts) \<and>
     (\<not> (\<exists>u \<in> set vs. Vertex_eq u v) \<longrightarrow>
        (\<exists>n m'. mesh_loop a (take (Suc k) ts) ([], [], []) = Inr (vs @ [v], is @ [n], m') \<and>
                (Vertex_eq v v \<longrightarrow>
                       n = of_nat (length vs) \<and> (length vs < 2 ^ 32 \<longrightarrow> unat n = length vs))))"
proof -
  have ts: "ts = take k ts @ (ts ! k # drop (Suc k) ts)"
    using k by (simp add: id_take_nth_drop [symmetric])
  from run have "mesh_loop a (take k ts @ (ts ! k # drop (Suc k) ts)) ([], [], []) = Inr s'"
    using ts by simp
  from mesh_loop_prefix [OF this] obtain s1 where
    s1: "mesh_loop a (take k ts) ([], [], []) = Inr s1"
    and rest: "mesh_loop a (ts ! k # drop (Suc k) ts) s1 = Inr s'"
    by blast
  from rest obtain v where v: "vertexInstance a (ts ! k) = Inr v"
    by (auto split: sum.splits)
  obtain vs "is" m where s1': "s1 = (vs, is, m)" by (cases s1) auto
  from mesh_loop_inv [OF s1] obtain ws where
    ws: "map (vertexInstance a) (take k ts) = map Inr ws" and inv: "loop_inv ws (vs, is, m)"
    unfolding s1' by blast
  from inv have dm: "dom (map_of m) = set vs" and sv: "set vs = set ws"
    by (auto simp: loop_inv_def)
  have "Inr ` set vs = set (map Inr ws)" by (simp add: sv)
  also have "\<dots> = vertexInstance a ` set (take k ts)" by (simp only: ws [symmetric]) simp
  finally have prev: "Inr ` set vs = vertexInstance a ` set (take k ts)" .
  have step: "mesh_loop a (take (Suc k) ts) ([], [], []) = Inr (emit v (vs, is, m))"
    using k s1 v by (simp add: take_Suc_conv_app_nth mesh_loop_append s1')
  have new: "\<exists>n m'. emit v (vs, is, m) = (vs @ [v], is @ [n], m') \<and>
                (Vertex_eq v v \<longrightarrow>
                       n = of_nat (length vs) \<and> (length vs < 2 ^ 32 \<longrightarrow> unat n = length vs))"
    if "\<not> (\<exists>u \<in> set vs. Vertex_eq u v)"
  proof (cases "Vertex_eq v v")
    case True
    with that have "v \<notin> set vs" by blast
    with dm have "map_of m v = None" by auto
    from emit_new [OF True this]
    have "emit v (vs, is, m) =
        (vs @ [v], is @ [of_nat (length vs)], m @ [(v, of_nat (length vs))])" .
    moreover have "length vs < 2 ^ 32 \<longrightarrow> unat (of_nat (length vs) :: uint32_t) = length vs"
      by (simp add: unat_of_nat)
    ultimately show ?thesis by blast
  next
    case False
    from emit_NaN [OF False] False show ?thesis by blast
  qed
  from s1 v prev step new show ?thesis unfolding s1' by auto
qed

lemma loop_inv_position:
  assumes "loop_inv ws (vs, is, m)" and "k < length ws" and "Vertex_eq (ws ! k) (ws ! k)"
  shows "\<exists>p < length vs. vs ! p = ws ! k \<and> is ! k = of_nat p"
proof -
  from assms(1) have sv: "set vs = set ws"
    and pos: "\<forall>p < length vs. Vertex_eq (vs ! p) (vs ! p) \<longrightarrow> map_of m (vs ! p) = Some (of_nat p)"
    and ix: "\<forall>k < length ws. Vertex_eq (ws ! k) (ws ! k) \<longrightarrow> map_of m (ws ! k) = Some (is ! k)"
    by (auto simp: loop_inv_def)
  have "ws ! k \<in> set vs" using assms(2) by (simp add: sv)
  then obtain p where p: "p < length vs" "vs ! p = ws ! k"
    by (auto simp: in_set_conv_nth)
  then have "map_of m (ws ! k) = Some (of_nat p)" using pos assms(3) by auto
  moreover have "map_of m (ws ! k) = Some (is ! k)" using ix assms(2,3) by auto
  ultimately have "is ! k = of_nat p" by simp
  then show ?thesis using p by blast
qed

lemma unat_of_nat_le: "unat (of_nat p :: uint32_t) \<le> p"
  by (simp add: unat_of_nat)

lemma loop_inv_in_range:
  assumes "loop_inv ws (vs, is, m)" and "k < length ws"
  shows "unat (is ! k) < length vs"
proof (cases "Vertex_eq (ws ! k) (ws ! k)")
  case True
  from loop_inv_position [OF assms True] obtain p where
    p: "p < length vs" "is ! k = of_nat p"
    by blast
  have "unat (is ! k) \<le> p" unfolding p(2) by (rule unat_of_nat_le)
  then show ?thesis using p(1) by simp
next
  case False
  from assms(1) have sv: "set vs = set ws"
    and nan: "\<forall>k < length ws. \<not> Vertex_eq (ws ! k) (ws ! k) \<longrightarrow> is ! k = 0"
    by (auto simp: loop_inv_def)
  have "ws ! k \<in> set vs" using assms(2) by (simp add: sv)
  then have "0 < length vs" by (cases vs) auto
  moreover have "is ! k = 0" using nan assms(2) False by blast
  ultimately show ?thesis by simp
qed

lemma float_simps:
  "(0 :: float) \<noteq> NaN" "(1 :: float) \<noteq> NaN" "(- 1 :: float) \<noteq> NaN"
  "(0 :: float) \<noteq> 1" "(1 :: float) \<noteq> 0" "(- 1 :: float) \<noteq> 1" "(1 :: float) \<noteq> - 1"
  "(- 1 :: float) \<noteq> 0" "(0 :: float) \<noteq> - 1"
  "NaN \<noteq> (0 :: float)" "NaN \<noteq> (1 :: float)" "NaN \<noteq> (- 1 :: float)"
  by (simp_all add: zero_float_def one_float_def uminus_float_def)

text \<open>The example mesh, loaded.\<close>

lemma quad_vertexInstance:
  "vertexInstance quad_attrib (corner 0) = Inr (quad_vertex (-1) (-1) (vec3 1 0 0) 0 0)"
  "vertexInstance quad_attrib (corner 1) = Inr (quad_vertex 1 (-1) (vec3 0 1 0) 1 0)"
  "vertexInstance quad_attrib (corner 2) = Inr (quad_vertex 1 1 (vec3 0 0 1) 1 1)"
  "vertexInstance quad_attrib (corner 3) = Inr (quad_vertex (-1) 1 (vec3 1 1 1) 0 1)"
  by (simp_all add: vertexInstance_def set_position_color_def set_normal_def set_uv_def
      read3_def read2_def subscript_def INT_MAX_def quad_attrib_def corner_def
      quad_vertex_def Vertex_default_def Let_def)

lemma quad_loadModel: "loadModel quad_LoadObj ''quad.obj'' b = (Inr (), quad_builder)"
  by (simp add: loadModel_def quad_LoadObj_def quad_shapes_def quad_vertexInstance
      emit_def count_def operator_subscript_def assign_def Vertex_eq_def float_eq_def
      float_simps quad_vertex_def quad_builder_def)


lemma quad_prefix:
  "\<exists>m. mesh_loop quad_attrib [corner 0, corner 1, corner 2, corner 0, corner 2]
          ([], [], []) =
        Inr (take 3 (vertices quad_builder), [0, 1, 2, 0, 2], m)"
  by (simp add: quad_vertexInstance emit_def count_def operator_subscript_def assign_def
      Vertex_eq_def float_eq_def float_simps quad_vertex_def quad_builder_def)

text \<open>What a vertex synthesised without a fault holds.\<close>

lemma subscript_Inr: "subscript v j = Inr x \<Longrightarrow> 0 \<le> j \<and> nat j < length v \<and> x = v ! nat j"
  by (auto simp: subscript_def split: if_splits)

lemma read3_Inr:
  "read3 v j = Inr c \<Longrightarrow>
     0 \<le> j \<and> nat (j + 2) < length v \<and> c = vec3 (v ! nat j) (v ! nat (j + 1)) (v ! nat (j + 2))"
  by (auto simp: read3_def split: sum.splits dest!: subscript_Inr)

lemma set_position_color_Inr:
  assumes "set_position_color a i v = Inr v'" and "0 \<le> vertex_index i"
  shows "color v' =
     (if 3 * vertex_index i + 2 < int (length (colors a))
      then vec3 (colors a ! nat (3 * vertex_index i + 2 - 2))
                (colors a ! nat (3 * vertex_index i + 2 - 1))
                (colors a ! nat (3 * vertex_index i + 2))
      else vec3 1 1 1)"
proof (cases "3 * vertex_index i + 2 < int (length (colors a))")
  case True
  then have lt: "nat (3 * vertex_index i + 2) < length (colors a)" using assms(2) by linarith
  from assms lt obtain c where c: "read3 (colors a) (3 * vertex_index i + 2 - 2) = Inr c"
    and v': "color v' = c"
    by (auto simp: set_position_color_def Let_def split: sum.splits)
  from read3_Inr [OF c] have "c = vec3 (colors a ! nat (3 * vertex_index i + 2 - 2))
      (colors a ! nat (3 * vertex_index i + 2 - 2 + 1)) (colors a ! nat (3 * vertex_index i + 2 - 2 + 2))"
    by simp
  moreover have "3 * vertex_index i + 2 - 2 + 1 = 3 * vertex_index i + 2 - 1"
    and "3 * vertex_index i + 2 - 2 + 2 = 3 * vertex_index i + 2"
    by simp_all
  ultimately have "c = vec3 (colors a ! nat (3 * vertex_index i + 2 - 2))
      (colors a ! nat (3 * vertex_index i + 2 - 1)) (colors a ! nat (3 * vertex_index i + 2))"
    by (simp only:)
  then show ?thesis using True v' by (simp only: if_True)
next
  case False
  then have "\<not> nat (3 * vertex_index i + 2) < length (colors a)" using assms(2) by linarith
  then have "color v' = vec3 1 1 1" using assms
    by (auto simp: set_position_color_def Let_def split: sum.splits)
  then show ?thesis using False by simp
qed

lemma vertexInstance_color:
  assumes "vertexInstance a i = Inr v"
  shows "\<exists>v1. set_position_color a i Vertex_default = Inr v1 \<and> color v = color v1"
  using assms
  by (auto simp: vertexInstance_def set_normal_def set_uv_def split: sum.splits if_splits)

section \<open>Builder::loadModel: a failed parse\<close>

text \<open>
  C10. If the parser reports failure, \<^verbatim>\<open>loadModel\<close> throws a \<^verbatim>\<open>std::runtime_error\<close> whose
  message is the parser's warning text followed by its error text, and the builder
  (vertex and index sequences) is exactly what it was before the call. The previous
  contents are cleared only after a successful parse: then the outcome does not depend
  on what the builder held.
\<close>

theorem loadModel_parse_failure:
  "(\<not> ret (LoadObj filepath) \<longrightarrow>
      loadModel LoadObj filepath b =
        (Inl (runtime_error (warn (LoadObj filepath) @ err (LoadObj filepath))), b)) \<and>
   (ret (LoadObj filepath) \<longrightarrow>
      loadModel LoadObj filepath b = loadModel LoadObj filepath \<lparr>vertices = [], indices = []\<rparr>)"
  by (cases b) (simp add: loadModel_def Let_def split: sum.splits)

theorem loadModel_parse_failure_witness:
  "\<not> ret (quad_LoadObj ''missing.obj'') \<and>
   loadModel quad_LoadObj ''missing.obj'' quad_builder =
     (Inl (runtime_error ''Cannot open file [missing.obj]''), quad_builder) \<and>
   ret (quad_LoadObj ''quad.obj'') \<and>
   loadModel quad_LoadObj ''quad.obj'' quad_builder =
     loadModel quad_LoadObj ''quad.obj'' \<lparr>vertices = [], indices = []\<rparr>"
proof -
  have 1: "\<not> ret (quad_LoadObj ''missing.obj'')" and 3: "ret (quad_LoadObj ''quad.obj'')"
    by (simp_all add: quad_LoadObj_def)
  from loadModel_parse_failure [of quad_LoadObj "''missing.obj''" quad_builder] 1
  have "loadModel quad_LoadObj ''missing.obj'' quad_builder =
     (Inl (runtime_error (warn (quad_LoadObj ''missing.obj'') @ err (quad_LoadObj ''missing.obj''))),
      quad_builder)"
    by blast
  then have 2: "loadModel quad_LoadObj ''missing.obj'' quad_builder =
     (Inl (runtime_error ''Cannot open file [missing.obj]''), quad_builder)"
    by (simp add: quad_LoadObj_def)
  from loadModel_parse_failure [of quad_LoadObj "''quad.obj''" quad_builder] 3
  have 4: "loadModel quad_LoadObj ''quad.obj'' quad_builder =
     loadModel quad_LoadObj ''quad.obj'' \<lparr>vertices = [], indices = []\<rparr>"
    by blast
  from 1 2 3 4 show ?thesis by (intro conjI)
qed

section \<open>Builder::loadModel: indices and deduplication\<close>

text \<open>
  C2. After a call of \<^verbatim>\<open>loadModel\<close> that returns, every element of the builder's index
  sequence is strictly less than the length of the builder's vertex sequence.
\<close>

theorem loadModel_indices_in_range:
  "loadModel LoadObj filepath b = (Inr (), b') \<Longrightarrow>
     \<forall>i \<in> set (indices b'). unat i < length (vertices b')"
proof
  fix i
  assume run: "loadModel LoadObj filepath b = (Inr (), b')" and i: "i \<in> set (indices b')"
  from loadModel_success [OF run] obtain ws m where
    inv: "loop_inv ws (vertices b', indices b', m)"
    by blast
  then have len: "length (indices b') = length ws" by (simp add: loop_inv_def)
  from i obtain k where k: "k < length (indices b')" "indices b' ! k = i"
    by (auto simp: in_set_conv_nth)
  from loop_inv_in_range [OF inv, of k] k len show "unat i < length (vertices b')"
    by simp
qed


theorem loadModel_indices_in_range_witness:
  "loadModel quad_LoadObj ''quad.obj'' empty_builder = (Inr (), quad_builder) \<and>
   indices quad_builder = [0, 1, 2, 0, 2, 3] \<and>
   length (vertices quad_builder) = 4 \<and>
   unat (3 :: uint32_t) < length (vertices quad_builder)"
proof -
  have run: "loadModel quad_LoadObj ''quad.obj'' empty_builder = (Inr (), quad_builder)"
    by (rule quad_loadModel)
  have ix: "indices quad_builder = [0, 1, 2, 0, 2, 3]"
    and len: "length (vertices quad_builder) = 4"
    by (simp_all add: quad_builder_def)
  have "3 \<in> set (indices quad_builder)" by (simp add: ix)
  with loadModel_indices_in_range [OF run]
  have "unat (3 :: uint32_t) < length (vertices quad_builder)" by blast
  with run ix len show ?thesis by (intro conjI)
qed

text \<open>
  C3. After a call of \<^verbatim>\<open>loadModel\<close> that returns: one index is emitted per raw index
  triple; two triples whose synthesised vertices compare equal (\<^verbatim>\<open>Vertex::operator==\<close>) get
  equal indices; no two entries of the vertex sequence compare equal; the index emitted
  for a triple whose vertex has no NaN member is the position of the one entry equal to
  that vertex, as a \<^verbatim>\<open>uint32_t\<close>, and it subscripts that entry when the sequence has at
  most \<open>2^32\<close> entries. Step by step: the two loops visit the raw index triples in the
  order of \<open>triples\<close>; when the \<open>k\<close>-th triple is reached, the vertex sequence \<open>vs\<close> holds
  the vertices synthesised for the triples before it, and if the vertex of the \<open>k\<close>-th
  triple compares equal to none of them it is appended at the end of \<open>vs\<close>, and if it has
  no NaN member its position there, the length of \<open>vs\<close> as a \<^verbatim>\<open>uint32_t\<close>, is emitted.
\<close>

theorem loadModel_deduplicates:
  assumes "loadModel LoadObj filepath b = (Inr (), b')"
  shows "length (indices b') = length (triples (shapes (LoadObj filepath))) \<and>
    (\<forall>i < length (triples (shapes (LoadObj filepath))).
       \<forall>j < length (triples (shapes (LoadObj filepath))).
         \<forall>u w. vertexInstance (attrib (LoadObj filepath)) (triples (shapes (LoadObj filepath)) ! i) = Inr u \<and>
               vertexInstance (attrib (LoadObj filepath)) (triples (shapes (LoadObj filepath)) ! j) = Inr w \<and>
               Vertex_eq u w
         \<longrightarrow> indices b' ! i = indices b' ! j) \<and>
    (\<forall>p < length (vertices b'). \<forall>q < length (vertices b').
       Vertex_eq (vertices b' ! p) (vertices b' ! q) \<longrightarrow> p = q) \<and>
    (\<forall>k < length (triples (shapes (LoadObj filepath))).
       \<forall>u. vertexInstance (attrib (LoadObj filepath)) (triples (shapes (LoadObj filepath)) ! k) = Inr u \<and>
           Vertex_eq u u
       \<longrightarrow> (\<exists>p < length (vertices b'). vertices b' ! p = u \<and> indices b' ! k = of_nat p)) \<and>
    (length (vertices b') \<le> 2 ^ 32 \<longrightarrow>
       (\<forall>k < length (triples (shapes (LoadObj filepath))).
          \<forall>u. vertexInstance (attrib (LoadObj filepath)) (triples (shapes (LoadObj filepath)) ! k) = Inr u \<and>
              Vertex_eq u u
          \<longrightarrow> vertices b' ! unat (indices b' ! k) = u)) \<and>
    (\<forall>s. shapes_loop (attrib (LoadObj filepath)) (shapes (LoadObj filepath)) s =
         mesh_loop (attrib (LoadObj filepath)) (triples (shapes (LoadObj filepath))) s) \<and>
    (\<forall>k < length (triples (shapes (LoadObj filepath))).
       \<exists>vs is m v.
         mesh_loop (attrib (LoadObj filepath)) (take k (triples (shapes (LoadObj filepath))))
           ([], [], []) = Inr (vs, is, m) \<and>
         vertexInstance (attrib (LoadObj filepath)) (triples (shapes (LoadObj filepath)) ! k) =
           Inr v \<and>
         Inr ` set vs =
           vertexInstance (attrib (LoadObj filepath)) `
             set (take k (triples (shapes (LoadObj filepath)))) \<and>
         (\<not> (\<exists>u \<in> set vs. Vertex_eq u v) \<longrightarrow>
            (\<exists>n m'. mesh_loop (attrib (LoadObj filepath))
                       (take (Suc k) (triples (shapes (LoadObj filepath)))) ([], [], []) =
                       Inr (vs @ [v], is @ [n], m') \<and>
                    (Vertex_eq v v \<longrightarrow>
                       n = of_nat (length vs) \<and> (length vs < 2 ^ 32 \<longrightarrow> unat n = length vs)))))"
proof -
  let ?a = "attrib (LoadObj filepath)"
  let ?ts = "triples (shapes (LoadObj filepath))"
  from loadModel_success [OF assms] obtain ws m where
    ws: "map (vertexInstance ?a) ?ts = map Inr ws"
    and inv: "loop_inv ws (vertices b', indices b', m)"
    and flat: "mesh_loop ?a ?ts ([], [], []) = Inr (vertices b', indices b', m)"
    by blast
  from ws have lw: "length ws = length ?ts"
    by (metis length_map)
  have nth: "vertexInstance ?a (?ts ! k) = Inr (ws ! k)" if "k < length ?ts" for k
  proof -
    have "map (vertexInstance ?a) ?ts ! k = map Inr ws ! k" by (simp only: ws)
    then show ?thesis using that lw by simp
  qed
  from inv have len: "length (indices b') = length ws"
    and uniq: "\<forall>p < length (vertices b'). \<forall>q < length (vertices b').
       Vertex_eq (vertices b' ! p) (vertices b' ! q) \<longrightarrow> p = q"
    and ix: "\<forall>k < length ws. Vertex_eq (ws ! k) (ws ! k) \<longrightarrow> map_of m (ws ! k) = Some (indices b' ! k)"
    by (auto simp: loop_inv_def)
  have c1: "length (indices b') = length ?ts" using len lw by simp
  have c2: "indices b' ! i = indices b' ! j"
    if "i < length ?ts" "j < length ?ts"
       "vertexInstance ?a (?ts ! i) = Inr u" "vertexInstance ?a (?ts ! j) = Inr w"
       "Vertex_eq u w" for i j u w
  proof -
    from that(5) have uw: "u = w" and w: "Vertex_eq w w" using Vertex_eq_iff by blast+
    from that nth have i: "ws ! i = w" and j: "ws ! j = w" by (simp_all add: uw)
    from ix that(1) lw i w have "map_of m w = Some (indices b' ! i)" by auto
    moreover from ix that(2) lw j w have "map_of m w = Some (indices b' ! j)" by auto
    ultimately show ?thesis by simp
  qed
  have c4: "\<exists>p < length (vertices b'). vertices b' ! p = u \<and> indices b' ! k = of_nat p"
    if "k < length ?ts" "vertexInstance ?a (?ts ! k) = Inr u" "Vertex_eq u u" for k u
  proof -
    from that nth have "ws ! k = u" by simp
    with loop_inv_position [OF inv, of k] that lw show ?thesis by simp
  qed
  have c5: "vertices b' ! unat (indices b' ! k) = u"
    if "length (vertices b') \<le> 2 ^ 32" "k < length ?ts"
       "vertexInstance ?a (?ts ! k) = Inr u" "Vertex_eq u u" for k u
  proof -
    from c4 [OF that(2,3,4)] obtain p where p: "p < length (vertices b')"
      "vertices b' ! p = u" "indices b' ! k = of_nat p"
      by blast
    have "p < 2 ^ 32" using p(1) that(1) by simp
    then have "unat (of_nat p :: uint32_t) = p"
      by (simp add: unat_of_nat)
    then show ?thesis using p by simp
  qed
  have c6: "\<forall>s. shapes_loop ?a (shapes (LoadObj filepath)) s = mesh_loop ?a ?ts s"
    by (simp add: shapes_loop_triples)
  have c7: "\<forall>k < length ?ts. \<exists>vs is m v.
         mesh_loop ?a (take k ?ts) ([], [], []) = Inr (vs, is, m) \<and>
         vertexInstance ?a (?ts ! k) = Inr v \<and>
         Inr ` set vs = vertexInstance ?a ` set (take k ?ts) \<and>
         (\<not> (\<exists>u \<in> set vs. Vertex_eq u v) \<longrightarrow>
            (\<exists>n m'. mesh_loop ?a (take (Suc k) ?ts) ([], [], []) = Inr (vs @ [v], is @ [n], m') \<and>
                    (Vertex_eq v v \<longrightarrow>
                       n = of_nat (length vs) \<and> (length vs < 2 ^ 32 \<longrightarrow> unat n = length vs))))"
    using mesh_loop_step [OF flat] by blast
  have c2': "\<forall>i < length ?ts. \<forall>j < length ?ts. \<forall>u w.
       vertexInstance ?a (?ts ! i) = Inr u \<and> vertexInstance ?a (?ts ! j) = Inr w \<and> Vertex_eq u w
       \<longrightarrow> indices b' ! i = indices b' ! j"
    using c2 by blast
  have c4': "\<forall>k < length ?ts. \<forall>u.
       vertexInstance ?a (?ts ! k) = Inr u \<and> Vertex_eq u u
       \<longrightarrow> (\<exists>p < length (vertices b'). vertices b' ! p = u \<and> indices b' ! k = of_nat p)"
    using c4 by blast
  have c5': "length (vertices b') \<le> 2 ^ 32 \<longrightarrow>
       (\<forall>k < length ?ts. \<forall>u.
          vertexInstance ?a (?ts ! k) = Inr u \<and> Vertex_eq u u
          \<longrightarrow> vertices b' ! unat (indices b' ! k) = u)"
    using c5 by blast
  from c1 c2' uniq c4' c5' c6 c7 show ?thesis by (intro conjI)
qed

theorem loadModel_deduplicates_witness:
  "loadModel quad_LoadObj ''quad.obj'' empty_builder = (Inr (), quad_builder) \<and>
   triples (shapes (quad_LoadObj ''quad.obj'')) =
     [corner 0, corner 1, corner 2, corner 0, corner 2, corner 3] \<and>
   indices quad_builder = [0, 1, 2, 0, 2, 3] \<and>
   length (vertices quad_builder) = 4 \<and>
   vertexInstance quad_attrib (corner 0) = Inr (vertices quad_builder ! 0) \<and>
   Vertex_eq (vertices quad_builder ! 0) (vertices quad_builder ! 0) \<and>
   indices quad_builder ! 0 = indices quad_builder ! 3 \<and>
   vertexInstance quad_attrib (corner 3) = Inr (vertices quad_builder ! 3) \<and>
   Vertex_eq (vertices quad_builder ! 3) (vertices quad_builder ! 3) \<and>
   vertices quad_builder ! unat (indices quad_builder ! 5) = vertices quad_builder ! 3 \<and>
   \<not> (\<exists>u \<in> set (take 3 (vertices quad_builder)). Vertex_eq u (vertices quad_builder ! 3)) \<and>
   (\<exists>m. mesh_loop quad_attrib [corner 0, corner 1, corner 2, corner 0, corner 2, corner 3]
           ([], [], []) =
         Inr (take 3 (vertices quad_builder) @ [vertices quad_builder ! 3],
              [0, 1, 2, 0, 2] @ [3], m))"
proof -
  let ?ts = "triples (shapes (quad_LoadObj ''quad.obj''))"
  let ?a = "attrib (quad_LoadObj ''quad.obj'')"
  have run: "loadModel quad_LoadObj ''quad.obj'' empty_builder = (Inr (), quad_builder)"
    by (rule quad_loadModel)
  have ts: "?ts = [corner 0, corner 1, corner 2, corner 0, corner 2, corner 3]"
    by (simp add: triples_def quad_LoadObj_def quad_shapes_def)
  have a: "?a = quad_attrib"
    by (simp add: quad_LoadObj_def)
  have ix: "indices quad_builder = [0, 1, 2, 0, 2, 3]"
    and len: "length (vertices quad_builder) = 4"
    by (simp_all add: quad_builder_def)
  have v0: "vertexInstance quad_attrib (corner 0) = Inr (vertices quad_builder ! 0)"
    and v3: "vertexInstance quad_attrib (corner 3) = Inr (vertices quad_builder ! 3)"
    by (simp_all add: quad_vertexInstance quad_builder_def)
  have e0: "Vertex_eq (vertices quad_builder ! 0) (vertices quad_builder ! 0)"
    and e3: "Vertex_eq (vertices quad_builder ! 3) (vertices quad_builder ! 3)"
    by (simp_all add: quad_builder_def quad_vertex_def Vertex_eq_def float_eq_def float_simps)
  have l: "0 < length ?ts" "3 < length ?ts" "5 < length ?ts" by (simp_all add: ts)
  have t: "?ts ! 0 = corner 0" "?ts ! 3 = corner 0" "?ts ! 5 = corner 3" by (simp_all add: ts)
  note d = loadModel_deduplicates [OF run]
  from d have "\<forall>i < length ?ts. \<forall>j < length ?ts. \<forall>u w.
       vertexInstance ?a (?ts ! i) = Inr u \<and> vertexInstance ?a (?ts ! j) = Inr w \<and> Vertex_eq u w
       \<longrightarrow> indices quad_builder ! i = indices quad_builder ! j"
    by (elim conjE)
  with l(1,2) have "vertexInstance ?a (?ts ! 0) = Inr (vertices quad_builder ! 0) \<and>
      vertexInstance ?a (?ts ! 3) = Inr (vertices quad_builder ! 0) \<and>
      Vertex_eq (vertices quad_builder ! 0) (vertices quad_builder ! 0)
      \<longrightarrow> indices quad_builder ! 0 = indices quad_builder ! 3"
    by blast
  with v0 e0 have same: "indices quad_builder ! 0 = indices quad_builder ! 3"
    by (simp add: t a)
  from d have "length (vertices quad_builder) \<le> 2 ^ 32 \<longrightarrow>
      (\<forall>k < length ?ts. \<forall>u. vertexInstance ?a (?ts ! k) = Inr u \<and> Vertex_eq u u
          \<longrightarrow> vertices quad_builder ! unat (indices quad_builder ! k) = u)"
    by (elim conjE)
  moreover have "length (vertices quad_builder) \<le> 2 ^ 32" by (simp add: len)
  ultimately have "\<forall>k < length ?ts. \<forall>u. vertexInstance ?a (?ts ! k) = Inr u \<and> Vertex_eq u u
          \<longrightarrow> vertices quad_builder ! unat (indices quad_builder ! k) = u"
    by (rule mp)
  with l(3) have "vertexInstance ?a (?ts ! 5) = Inr (vertices quad_builder ! 3) \<and>
      Vertex_eq (vertices quad_builder ! 3) (vertices quad_builder ! 3)
      \<longrightarrow> vertices quad_builder ! unat (indices quad_builder ! 5) = vertices quad_builder ! 3"
    by blast
  with v3 e3 have sub: "vertices quad_builder ! unat (indices quad_builder ! 5) = vertices quad_builder ! 3"
    by (simp add: t a)
  have new: "\<not> (\<exists>u \<in> set (take 3 (vertices quad_builder)). Vertex_eq u (vertices quad_builder ! 3))"
    by (simp add: quad_builder_def quad_vertex_def Vertex_eq_def float_eq_def float_simps)
  from d have "\<forall>k < length ?ts. \<exists>vs is m v.
         mesh_loop ?a (take k ?ts) ([], [], []) = Inr (vs, is, m) \<and>
         vertexInstance ?a (?ts ! k) = Inr v \<and>
         Inr ` set vs = vertexInstance ?a ` set (take k ?ts) \<and>
         (\<not> (\<exists>u \<in> set vs. Vertex_eq u v) \<longrightarrow>
            (\<exists>n m'. mesh_loop ?a (take (Suc k) ?ts) ([], [], []) = Inr (vs @ [v], is @ [n], m') \<and>
                    (Vertex_eq v v \<longrightarrow>
                       n = of_nat (length vs) \<and> (length vs < 2 ^ 32 \<longrightarrow> unat n = length vs))))"
    by (elim conjE)
  then have "5 < length ?ts \<longrightarrow> (\<exists>vs is m v.
         mesh_loop ?a (take 5 ?ts) ([], [], []) = Inr (vs, is, m) \<and>
         vertexInstance ?a (?ts ! 5) = Inr v \<and>
         Inr ` set vs = vertexInstance ?a ` set (take 5 ?ts) \<and>
         (\<not> (\<exists>u \<in> set vs. Vertex_eq u v) \<longrightarrow>
            (\<exists>n m'. mesh_loop ?a (take (Suc 5) ?ts) ([], [], []) = Inr (vs @ [v], is @ [n], m') \<and>
                    (Vertex_eq v v \<longrightarrow>
                       n = of_nat (length vs) \<and> (length vs < 2 ^ 32 \<longrightarrow> unat n = length vs)))))"
    by (rule spec)
  from this l(3) have "\<exists>vs is m v.
         mesh_loop ?a (take 5 ?ts) ([], [], []) = Inr (vs, is, m) \<and>
         vertexInstance ?a (?ts ! 5) = Inr v \<and>
         Inr ` set vs = vertexInstance ?a ` set (take 5 ?ts) \<and>
         (\<not> (\<exists>u \<in> set vs. Vertex_eq u v) \<longrightarrow>
            (\<exists>n m'. mesh_loop ?a (take (Suc 5) ?ts) ([], [], []) = Inr (vs @ [v], is @ [n], m') \<and>
                    (Vertex_eq v v \<longrightarrow>
                       n = of_nat (length vs) \<and> (length vs < 2 ^ 32 \<longrightarrow> unat n = length vs))))"
    by (rule mp)
  then obtain vs "is" m v where
    pre: "mesh_loop ?a (take 5 ?ts) ([], [], []) = Inr (vs, is, m)"
    and v: "vertexInstance ?a (?ts ! 5) = Inr v"
    and step: "\<not> (\<exists>u \<in> set vs. Vertex_eq u v) \<longrightarrow>
            (\<exists>n m'. mesh_loop ?a (take (Suc 5) ?ts) ([], [], []) = Inr (vs @ [v], is @ [n], m') \<and>
                    (Vertex_eq v v \<longrightarrow>
                       n = of_nat (length vs) \<and> (length vs < 2 ^ 32 \<longrightarrow> unat n = length vs)))"
    by (elim exE conjE)
  from quad_prefix obtain m0 where
    "mesh_loop quad_attrib [corner 0, corner 1, corner 2, corner 0, corner 2]
          ([], [], []) =
        Inr (take 3 (vertices quad_builder), [0, 1, 2, 0, 2], m0)"
    by blast
  with pre have vs: "vs = take 3 (vertices quad_builder)" and "is": "is = [0, 1, 2, 0, 2]"
    by (simp_all add: ts a)
  from v v3 have v': "v = vertices quad_builder ! 3" by (simp add: t a)
  from step new obtain n m' where
    "mesh_loop ?a (take (Suc 5) ?ts) ([], [], []) = Inr (vs @ [v], is @ [n], m')"
    and "Vertex_eq v v \<longrightarrow>
           n = of_nat (length vs) \<and> (length vs < 2 ^ 32 \<longrightarrow> unat n = length vs)"
    unfolding vs v' by blast
  with e3 have "mesh_loop ?a (take (Suc 5) ?ts) ([], [], []) = Inr (vs @ [v], is @ [n], m')"
    and n: "n = of_nat (length vs)"
    by (simp_all add: v')
  then have "mesh_loop quad_attrib [corner 0, corner 1, corner 2, corner 0, corner 2, corner 3]
           ([], [], []) =
         Inr (take 3 (vertices quad_builder) @ [vertices quad_builder ! 3],
              [0, 1, 2, 0, 2] @ [3], m')"
    by (simp add: ts a vs "is" v' len)
  then have last: "\<exists>m. mesh_loop quad_attrib [corner 0, corner 1, corner 2, corner 0, corner 2, corner 3]
           ([], [], []) =
         Inr (take 3 (vertices quad_builder) @ [vertices quad_builder ! 3],
              [0, 1, 2, 0, 2] @ [3], m)"
    by blast
  from run ts ix len v0 e0 same v3 e3 sub new last show ?thesis by (intro conjI)
qed

text \<open>
  Two loads in which an emitted index is not the position of the vertex it was emitted
  for. In the first the third position has a NaN coordinate: its vertex compares equal to
  no vertex, it is appended at each of its two occurrences, and the index emitted for it
  is 0 both times, the position of another vertex. In the second load the vertex of the
  last raw index triple is equal to no earlier vertex and has no NaN member; it is appended
  at position \<open>2^32\<close>, and the index emitted for it is 0.
\<close>

lemma nan_loadModel:
  "loadModel nan_LoadObj [] empty_builder =
     (Inr (), \<lparr>vertices = [bare_vertex 0, bare_vertex 1, bare_vertex NaN, bare_vertex NaN],
               indices = [0, 1, 0, 0]\<rparr>)"
  by (simp add: loadModel_def nan_LoadObj_def nan_attrib_def bare_def bare_vertex_def
      vertexInstance_def set_position_color_def set_normal_def set_uv_def
      read3_def read2_def subscript_def INT_MAX_def Vertex_default_def Let_def
      emit_def count_def operator_subscript_def assign_def Vertex_eq_def float_eq_def
      float_simps empty_builder_def)

lemma mesh_loop_Inr:
  "map (vertexInstance a) ts = map Inr ws \<Longrightarrow> mesh_loop a ts s = Inr (fold emit ws s)"
proof (induction ts arbitrary: ws s)
  case Nil
  then show ?case by simp
next
  case (Cons t ts)
  from Cons.prems obtain w ws' where ws: "ws = w # ws'" by (cases ws) auto
  from Cons.prems have t: "vertexInstance a t = Inr w"
    and rest: "map (vertexInstance a) ts = map Inr ws'"
    by (simp_all add: ws)
  from Cons.IH [OF rest] t show ?case by (simp add: ws)
qed

lemma fold_emit_distinct:
  assumes "distinct ws" and "\<forall>w \<in> set ws. Vertex_eq w w"
  shows "\<exists>m. fold emit ws ([], [], []) = (ws, map of_nat [0..<length ws], m)"
  using assms
proof (induction ws rule: rev_induct)
  case Nil
  show ?case by simp
next
  case (snoc v ws)
  from snoc obtain m where
    m: "fold emit ws ([], [], []) = (ws, map of_nat [0..<length ws], m)"
    by auto
  have "loop_inv ([] @ ws) (fold emit ws ([], [], []))"
    by (rule loop_inv_fold [OF loop_inv_init])
  then have "dom (map_of m) = set ws" by (simp add: m loop_inv_def)
  moreover have "v \<notin> set ws" using snoc.prems(1) by simp
  ultimately have none: "map_of m v = None" by auto
  have v: "Vertex_eq v v" using snoc.prems(2) by simp
  from emit_new [OF v none]
  have "fold emit (ws @ [v]) ([], [], []) =
      (ws @ [v], map of_nat [0..<length ws] @ [of_nat (length ws)],
       m @ [(v, of_nat (length ws))])"
    by (simp add: m)
  then show ?case by simp
qed

lemma big_vertex_inj: "big_vertex k = big_vertex k' \<Longrightarrow> k = k'"
proof -
  assume "big_vertex k = big_vertex k'"
  then have "k div 65536 = k' div 65536" and "k mod 65536 = k' mod 65536"
    by (simp_all add: big_vertex_def)
  then show "k = k'" by (metis div_mult_mod_eq)
qed

lemma big_vertex_eq: "Vertex_eq (big_vertex k) (big_vertex k)"
  by (simp add: big_vertex_def Vertex_eq_def float_eq_def float_simps)

lemma subscript_at:
  "j < length v \<Longrightarrow> j \<le> 2147483647 \<Longrightarrow> i = int j \<Longrightarrow> v ! j = x \<Longrightarrow> subscript v i = Inr x"
  by (simp add: subscript_def INT_MAX_def)

lemma big_vertexInstance:
  assumes "k < 4294967297"
  shows "vertexInstance big_attrib (big_index k) = Inr (big_vertex k)"
proof -
  let ?d = "k div 65536" and ?m = "k mod 65536"
  have d: "?d \<le> 65536" using assms by simp
  have m: "?m < 65536" by simp
  have lp: "length (attrib_t.vertices big_attrib) = 196611"
    and lt: "length (texcoords big_attrib) = 131072"
    and lc: "colors big_attrib = []"
    by (simp_all add: big_attrib_def)
  have np: "attrib_t.vertices big_attrib ! j = Float (real j)" if "j < 196611" for j
    using that by (simp add: big_attrib_def)
  have nt: "texcoords big_attrib ! j = Float (real j)" if "j < 131072" for j
    using that by (simp add: big_attrib_def)
  have p0: "subscript (attrib_t.vertices big_attrib) (3 * int ?d) = Inr (Float (real (3 * ?d)))"
    using d by (intro subscript_at [of "3 * ?d"]) (simp_all add: lp np)
  have p1: "subscript (attrib_t.vertices big_attrib) (3 * int ?d + 1) =
      Inr (Float (real (3 * ?d + 1)))"
    using d by (intro subscript_at [of "3 * ?d + 1"]) (simp_all add: lp np)
  have p2: "subscript (attrib_t.vertices big_attrib) (3 * int ?d + 2) =
      Inr (Float (real (3 * ?d + 2)))"
    using d by (intro subscript_at [of "3 * ?d + 2"]) (simp_all add: lp np)
  have t0: "subscript (texcoords big_attrib) (2 * int ?m) = Inr (Float (real (2 * ?m)))"
    using m by (intro subscript_at [of "2 * ?m"]) (simp_all add: lt nt)
  have t1: "subscript (texcoords big_attrib) (2 * int ?m + 1) = Inr (Float (real (2 * ?m + 1)))"
    using m by (intro subscript_at [of "2 * ?m + 1"]) (simp_all add: lt nt)
  have r3: "read3 (attrib_t.vertices big_attrib) (3 * int ?d) =
      Inr (vec3 (Float (real (3 * ?d))) (Float (real (3 * ?d + 1))) (Float (real (3 * ?d + 2))))"
    by (simp only: read3_def p0 p1 p2 sum.case)
  have r2: "read2 (texcoords big_attrib) (2 * int ?m) =
      Inr (vec2 (Float (real (2 * ?m))) (Float (real (2 * ?m + 1))))"
    by (simp only: read2_def t0 t1 sum.case)
  show ?thesis
    by (simp add: vertexInstance_def set_position_color_def set_normal_def set_uv_def
        big_index_def r3 r2 lc big_vertex_def Vertex_default_def Let_def)
qed

lemma big_loadModel:
  "loadModel big_LoadObj [] empty_builder =
     (Inr (), \<lparr>vertices = map big_vertex [0..<4294967297],
               indices = map of_nat [0..<4294967297]\<rparr>)"
proof -
  let ?ks = "[0..<4294967297]"
  have "map (vertexInstance big_attrib) (map big_index ?ks) = map Inr (map big_vertex ?ks)"
    by (simp add: big_vertexInstance)
  then have run: "mesh_loop big_attrib (map big_index ?ks) ([], [], []) =
      Inr (fold emit (map big_vertex ?ks) ([], [], []))"
    by (rule mesh_loop_Inr)
  have "inj_on big_vertex (set ?ks)"
    by (rule inj_onI) (rule big_vertex_inj)
  then have "distinct (map big_vertex ?ks)"
    by (simp add: distinct_map)
  moreover have "\<forall>w \<in> set (map big_vertex ?ks). Vertex_eq w w"
    by (auto simp: big_vertex_eq)
  ultimately obtain m where "fold emit (map big_vertex ?ks) ([], [], []) =
      (map big_vertex ?ks, map of_nat [0..<length (map big_vertex ?ks)], m)"
    using fold_emit_distinct by blast
  then have "mesh_loop big_attrib (map big_index ?ks) ([], [], []) =
      Inr (map big_vertex ?ks, map of_nat ?ks, m)"
    using run by simp
  then show ?thesis
    by (simp add: loadModel_def big_LoadObj_def empty_builder_def)
qed

theorem loadModel_index_of_another_vertex:
  "loadModel nan_LoadObj [] empty_builder =
     (Inr (), \<lparr>vertices = [bare_vertex 0, bare_vertex 1, bare_vertex NaN, bare_vertex NaN],
               indices = [0, 1, 0, 0]\<rparr>) \<and>
   triples (shapes (nan_LoadObj [])) = [bare 0, bare 1, bare 2, bare 2] \<and>
   vertexInstance nan_attrib (bare 2) = Inr (bare_vertex NaN) \<and>
   \<not> Vertex_eq (bare_vertex NaN) (bare_vertex NaN) \<and>
   bare_vertex NaN \<noteq> bare_vertex 0 \<and>
   loadModel big_LoadObj [] empty_builder =
     (Inr (), \<lparr>vertices = map big_vertex [0..<4294967297],
               indices = map of_nat [0..<4294967297]\<rparr>) \<and>
   triples (shapes (big_LoadObj [])) ! 4294967296 = big_index 4294967296 \<and>
   vertexInstance big_attrib (big_index 4294967296) = Inr (big_vertex 4294967296) \<and>
   Vertex_eq (big_vertex 4294967296) (big_vertex 4294967296) \<and>
   map big_vertex [0..<4294967297] ! 4294967296 = big_vertex 4294967296 \<and>
   big_vertex 4294967296 \<notin> set (take 4294967296 (map big_vertex [0..<4294967297])) \<and>
   (map of_nat [0..<4294967297] :: uint32_t list) ! 4294967296 = 0 \<and>
   map big_vertex [0..<4294967297] ! 0 = big_vertex 0 \<and>
   big_vertex 0 \<noteq> big_vertex 4294967296"
proof -
  have 1: "triples (shapes (nan_LoadObj [])) = [bare 0, bare 1, bare 2, bare 2]"
    by (simp add: triples_def nan_LoadObj_def)
  have 2: "vertexInstance nan_attrib (bare 2) = Inr (bare_vertex NaN)"
    by (simp add: nan_attrib_def bare_def bare_vertex_def
      vertexInstance_def set_position_color_def set_normal_def set_uv_def
      read3_def read2_def subscript_def INT_MAX_def Vertex_default_def Let_def)
  have 3: "\<not> Vertex_eq (bare_vertex NaN) (bare_vertex NaN)"
    by (simp add: bare_vertex_def Vertex_eq_def float_eq_def)
  have 4: "bare_vertex NaN \<noteq> bare_vertex 0"
    by (simp add: bare_vertex_def float_simps)
  have 5: "triples (shapes (big_LoadObj [])) ! 4294967296 = big_index 4294967296"
    by (simp add: triples_def big_LoadObj_def)
  have 6: "vertexInstance big_attrib (big_index 4294967296) = Inr (big_vertex 4294967296)"
    by (rule big_vertexInstance) simp
  have 7: "map big_vertex [0..<4294967297] ! 4294967296 = big_vertex 4294967296"
    and 10: "map big_vertex [0..<4294967297] ! 0 = big_vertex 0"
    by simp_all
  have 8: "big_vertex 4294967296 \<notin> set (take 4294967296 (map big_vertex [0..<4294967297]))"
  proof
    assume "big_vertex 4294967296 \<in> set (take 4294967296 (map big_vertex [0..<4294967297]))"
    then obtain k where "k < 4294967296" "big_vertex 4294967296 = big_vertex k"
      by (auto simp: take_map)
    with big_vertex_inj [of 4294967296 k] show False by simp
  qed
  have 9: "(map of_nat [0..<4294967297] :: uint32_t list) ! 4294967296 = 0"
    by simp
  have 11: "big_vertex 0 \<noteq> big_vertex 4294967296"
    using big_vertex_inj [of 0 4294967296] by auto
  from nan_loadModel 1 2 3 4 big_loadModel 5 6 big_vertex_eq 7 8 9 10 11
  show ?thesis by (intro conjI)
qed

section \<open>Builder::loadModel: the colour of a vertex\<close>

text \<open>
  C4. After a call of \<^verbatim>\<open>loadModel\<close> that returns, for every raw index triple with a
  position index \<open>p \<ge> 0\<close> the vertex synthesised for it is in the vertex sequence, and
  with \<open>colorIndex = 3 * p + 2\<close> its colour is the three floats of the colour array at
  \<open>colorIndex - 2\<close>, \<open>colorIndex - 1\<close>, \<open>colorIndex\<close> if \<open>colorIndex\<close> is less than the
  length of the colour array, and \<open>(1, 1, 1)\<close> otherwise.
\<close>

theorem loadModel_color:
  assumes "loadModel LoadObj filepath b = (Inr (), b')"
    and "k < length (triples (shapes (LoadObj filepath)))"
    and "0 \<le> vertex_index (triples (shapes (LoadObj filepath)) ! k)"
  shows "\<exists>v \<in> set (vertices b').
     vertexInstance (attrib (LoadObj filepath)) (triples (shapes (LoadObj filepath)) ! k) = Inr v \<and>
     color v =
       (let colorIndex = 3 * vertex_index (triples (shapes (LoadObj filepath)) ! k) + 2;
            colors = colors (attrib (LoadObj filepath))
        in if colorIndex < int (length colors)
           then vec3 (colors ! nat (colorIndex - 2)) (colors ! nat (colorIndex - 1))
                     (colors ! nat colorIndex)
           else vec3 1 1 1)"
proof -
  let ?a = "attrib (LoadObj filepath)"
  let ?t = "triples (shapes (LoadObj filepath)) ! k"
  from loadModel_success [OF assms(1)] obtain ws m where
    ws: "map (vertexInstance ?a) (triples (shapes (LoadObj filepath))) = map Inr ws"
    and inv: "loop_inv ws (vertices b', indices b', m)"
    by blast
  from ws have lw: "length ws = length (triples (shapes (LoadObj filepath)))"
    by (metis length_map)
  have "map (vertexInstance ?a) (triples (shapes (LoadObj filepath))) ! k = map Inr ws ! k"
    by (simp only: ws)
  then have v: "vertexInstance ?a ?t = Inr (ws ! k)" using assms(2) lw by simp
  from inv have "set (vertices b') = set ws" by (simp add: loop_inv_def)
  with assms(2) lw have mem: "ws ! k \<in> set (vertices b')" by simp
  from vertexInstance_color [OF v] obtain v1 where
    "set_position_color ?a ?t Vertex_default = Inr v1" "color (ws ! k) = color v1"
    by blast
  with set_position_color_Inr [OF _ assms(3)] have
    "color (ws ! k) =
     (if 3 * vertex_index ?t + 2 < int (length (colors ?a))
      then vec3 (colors ?a ! nat (3 * vertex_index ?t + 2 - 2))
                (colors ?a ! nat (3 * vertex_index ?t + 2 - 1))
                (colors ?a ! nat (3 * vertex_index ?t + 2))
      else vec3 1 1 1)"
    by simp
  then show ?thesis using v mem by (auto simp: Let_def)
qed

theorem loadModel_color_witness:
  "loadModel quad_LoadObj ''quad.obj'' empty_builder = (Inr (), quad_builder) \<and>
   (\<exists>v \<in> set (vertices quad_builder).
      vertexInstance quad_attrib (corner 1) = Inr v \<and> color v = vec3 0 1 0) \<and>
   (\<exists>v \<in> set (vertices quad_builder).
      vertexInstance quad_attrib (corner 3) = Inr v \<and> color v = vec3 1 1 1)"
proof -
  let ?ts = "triples (shapes (quad_LoadObj ''quad.obj''))"
  have run: "loadModel quad_LoadObj ''quad.obj'' empty_builder = (Inr (), quad_builder)"
    by (rule quad_loadModel)
  have ts: "?ts = [corner 0, corner 1, corner 2, corner 0, corner 2, corner 3]"
    by (simp add: triples_def quad_LoadObj_def quad_shapes_def)
  have a: "attrib (quad_LoadObj ''quad.obj'') = quad_attrib"
    by (simp add: quad_LoadObj_def)
  have k1: "1 < length ?ts" "0 \<le> vertex_index (?ts ! 1)"
    and k5: "5 < length ?ts" "0 \<le> vertex_index (?ts ! 5)"
    by (simp_all add: ts corner_def)
  have t1: "?ts ! 1 = corner 1" and t5: "?ts ! 5 = corner 3"
    by (simp_all add: ts)
  have c: "colors quad_attrib = [1, 0, 0, 0, 1, 0, 0, 0, 1]"
    by (simp add: quad_attrib_def)
  from loadModel_color [OF run k1]
  have 1: "\<exists>v \<in> set (vertices quad_builder).
      vertexInstance quad_attrib (corner 1) = Inr v \<and> color v = vec3 0 1 0"
    unfolding t1 a by (simp add: corner_def c)
  from loadModel_color [OF run k5]
  have 5: "\<exists>v \<in> set (vertices quad_builder).
      vertexInstance quad_attrib (corner 3) = Inr v \<and> color v = vec3 1 1 1"
    unfolding t5 a by (simp add: corner_def c)
  from run 1 5 show ?thesis by (intro conjI)
qed

section \<open>Builder::loadModel: the normal of a vertex\<close>

text \<open>
  When the normal index is not negative, the normal is read from \<^verbatim>\<open>attrib.vertices\<close>, the
  position array, at three times the normal index.
\<close>

lemma set_normal_Inr:
  assumes "set_normal a i v = Inr v'" and "0 \<le> normal_index i"
  shows "normal v' =
     vec3 (attrib_t.vertices a ! nat (3 * normal_index i))
          (attrib_t.vertices a ! nat (3 * normal_index i + 1))
          (attrib_t.vertices a ! nat (3 * normal_index i + 2))"
  using assms by (auto simp: set_normal_def split: sum.splits dest!: read3_Inr)

text \<open>
  C1. The claim is that the normal of a vertex is read from the parsed normal array at
  three times the normal index. On the example mesh the normal array is \<open>[0, 0, 1]\<close> and
  every normal index is 0, yet every synthesised vertex has the normal \<open>(-1, -1, 0)\<close>:
  the first three floats of the position array.
\<close>

theorem vertexInstance_normal_read_from_positions:
  "normals quad_attrib = [0, 0, 1] \<and>
   attrib_t.vertices quad_attrib = [-1, -1, 0, 1, -1, 0, 1, 1, 0, -1, 1, 0] \<and>
   corner 1 = \<lparr>vertex_index = 1, normal_index = 0, texcoord_index = 1\<rparr> \<and>
   vertexInstance quad_attrib (corner 1) =
     Inr \<lparr>position = vec3 1 (-1) 0, color = vec3 0 1 0,
          normal = vec3 (-1) (-1) 0, uv = vec2 1 0\<rparr> \<and>
   loadModel quad_LoadObj ''quad.obj'' empty_builder = (Inr (), quad_builder) \<and>
   map normal (vertices quad_builder) =
     [vec3 (-1) (-1) 0, vec3 (-1) (-1) 0, vec3 (-1) (-1) 0, vec3 (-1) (-1) 0]"
proof -
  have "vertexInstance quad_attrib (corner 1) =
     Inr \<lparr>position = vec3 1 (-1) 0, color = vec3 0 1 0,
          normal = vec3 (-1) (-1) 0, uv = vec2 1 0\<rparr>"
    by (simp add: quad_vertexInstance quad_vertex_def)
  moreover have "map normal (vertices quad_builder) =
     [vec3 (-1) (-1) 0, vec3 (-1) (-1) 0, vec3 (-1) (-1) 0, vec3 (-1) (-1) 0]"
    by (simp add: quad_builder_def quad_vertex_def)
  moreover have "normals quad_attrib = [0, 0, 1]"
    and "attrib_t.vertices quad_attrib = [-1, -1, 0, 1, -1, 0, 1, 1, 0, -1, 1, 0]"
    by (simp_all add: quad_attrib_def)
  moreover have "corner 1 = \<lparr>vertex_index = 1, normal_index = 0, texcoord_index = 1\<rparr>"
    by (simp add: corner_def)
  ultimately show ?thesis using quad_loadModel [of empty_builder] by (intro conjI)
qed

section \<open>The model class: the vertex count\<close>

text \<open>A size narrowed to \<^verbatim>\<open>uint32_t\<close> and compared.\<close>

lemma uint32_ge_3: "(3 \<le> (of_nat n :: uint32_t)) = (3 \<le> n mod 2 ^ 32)"
  by (simp add: word_le_nat_alt unat_of_nat)

lemma uint32_gt_0: "(0 < (of_nat n :: uint32_t)) = (n mod 2 ^ 32 \<noteq> 0)"
  by (simp add: word_less_nat_alt unat_of_nat)

lemma uint32_unat_of_nat: "n < 2 ^ 32 \<Longrightarrow> unat (of_nat n :: uint32_t) = n"
  by (simp add: unat_of_nat)

lemma createVertexBuffers_fails:
  assumes "length vs mod 2 ^ 32 < 3"
  shows "createVertexBuffers vs m =
        (Inl (assertion_failure ''Vertex count must be at least 3''),
         m\<lparr>vertexCount := of_nat (length vs)\<rparr>)"
  using assms by (simp add: createVertexBuffers_def Let_def uint32_ge_3)

lemma createVertexBuffers_passes:
  assumes "3 \<le> length vs mod 2 ^ 32"
  shows "createVertexBuffers vs m =
        (Inr (), m\<lparr>vertexCount := of_nat (length vs),
                   vertexBuffer := Some (take (length vs mod 2 ^ 32) vs)\<rparr>)"
  using assms by (simp add: createVertexBuffers_def Let_def uint32_ge_3 unat_of_nat)

text \<open>
  C5, as the code has it. Constructing a model from fewer than 3 vertices fails the
  assertion, and no vertex buffer is created. The assertion passes exactly when the
  vertex count narrowed to 32 bits, the length modulo \<open>2^32\<close>, is at least 3: so it
  passes for every vertex sequence of a length from 3 to \<open>2^32 - 1\<close>, and then the whole
  sequence is uploaded.
\<close>

theorem createVertexBuffers_assert:
  "(length vs < 3 \<longrightarrow>
      createVertexBuffers vs m =
        (Inl (assertion_failure ''Vertex count must be at least 3''),
         m\<lparr>vertexCount := of_nat (length vs)\<rparr>) \<and>
      fst (model_new \<lparr>vertices = vs, indices = is\<rparr>) =
        Inl (assertion_failure ''Vertex count must be at least 3'')) \<and>
   (3 \<le> length vs \<and> length vs < 2 ^ 32 \<longrightarrow>
      createVertexBuffers vs m =
        (Inr (), m\<lparr>vertexCount := of_nat (length vs), vertexBuffer := Some vs\<rparr>)) \<and>
   (fst (createVertexBuffers vs m) = Inr () \<longleftrightarrow> 3 \<le> length vs mod 2 ^ 32)"
proof (intro conjI impI)
  assume "length vs < 3"
  then have "length vs mod 2 ^ 32 < 3" by simp
  then show "createVertexBuffers vs m =
        (Inl (assertion_failure ''Vertex count must be at least 3''),
         m\<lparr>vertexCount := of_nat (length vs)\<rparr>)"
    by (rule createVertexBuffers_fails)
next
  assume "length vs < 3"
  then have "length vs mod 2 ^ 32 < 3" by simp
  then show "fst (model_new \<lparr>vertices = vs, indices = is\<rparr>) =
        Inl (assertion_failure ''Vertex count must be at least 3'')"
    by (simp add: model_new_def createVertexBuffers_fails)
next
  assume "3 \<le> length vs \<and> length vs < 2 ^ 32"
  then have "3 \<le> length vs mod 2 ^ 32" and "length vs mod 2 ^ 32 = length vs" by simp_all
  then show "createVertexBuffers vs m =
        (Inr (), m\<lparr>vertexCount := of_nat (length vs), vertexBuffer := Some vs\<rparr>)"
    by (simp add: createVertexBuffers_passes)
next
  show "fst (createVertexBuffers vs m) = Inr () \<longleftrightarrow> 3 \<le> length vs mod 2 ^ 32"
  proof (cases "3 \<le> length vs mod 2 ^ 32")
    case True
    then show ?thesis by (simp add: createVertexBuffers_passes)
  next
    case False
    then have "length vs mod 2 ^ 32 < 3" by simp
    then show ?thesis by (simp add: createVertexBuffers_fails)
  qed
qed

theorem createVertexBuffers_assert_witness:
  "length ([] :: Vertex list) < 3 \<and>
   fst (model_new empty_builder) = Inl (assertion_failure ''Vertex count must be at least 3'') \<and>
   3 \<le> length (vertices quad_builder) \<and> length (vertices quad_builder) < 2 ^ 32 \<and>
   createVertexBuffers (vertices quad_builder) model_members =
     (Inr (), model_members\<lparr>vertexCount := 4, vertexBuffer := Some (vertices quad_builder)\<rparr>)"
  using createVertexBuffers_assert [of "[]" model_members "[]"]
    createVertexBuffers_assert [of "vertices quad_builder" model_members "[]"]
  by (simp add: empty_builder_def quad_builder_def)

text \<open>
  C5, as stated ("for every vertex sequence of length at least 3 the assertion passes"),
  fails for a sequence of \<open>2^32\<close> vertices: the narrowed count is 0.
\<close>

theorem createVertexBuffers_wraps:
  "3 \<le> length (replicate 4294967296 Vertex_default) \<and>
   fst (model_new \<lparr>vertices = replicate 4294967296 Vertex_default, indices = []\<rparr>) =
     Inl (assertion_failure ''Vertex count must be at least 3'')"
  by (simp add: model_new_def createVertexBuffers_def Let_def)

section \<open>The model class: the index buffer and draw\<close>

text \<open>
  C6, as the code has it. \<^verbatim>\<open>hasIndexBuffer\<close> is set if and only if the index count
  narrowed to 32 bits, the length modulo \<open>2^32\<close>, is not 0: so, for an index sequence
  shorter than \<open>2^32\<close>, if and only if the sequence is not empty. When the flag is not
  set nothing but the count and the flag is assigned (no buffer is created); when it is
  set the index buffer is created. \<^verbatim>\<open>draw\<close> branches on the flag: set, it records one
  indexed draw of \<^verbatim>\<open>indexCount\<close> indices, one instance, all offsets 0; not set, one
  non-indexed draw of \<^verbatim>\<open>vertexCount\<close> vertices, one instance.
\<close>

theorem createIndexBuffer_draw:
  "hasIndexBuffer (createIndexBuffer is m) = (length is mod 2 ^ 32 \<noteq> 0) \<and>
   (length is < 2 ^ 32 \<longrightarrow> hasIndexBuffer (createIndexBuffer is m) = (is \<noteq> [])) \<and>
   (\<not> hasIndexBuffer (createIndexBuffer is m) \<longrightarrow>
      createIndexBuffer is m = m\<lparr>indexCount := 0, hasIndexBuffer := False\<rparr>) \<and>
   (hasIndexBuffer (createIndexBuffer is m) \<longrightarrow>
      createIndexBuffer is m =
        m\<lparr>indexCount := of_nat (length is), hasIndexBuffer := True,
          indexBuffer := Some (take (length is mod 2 ^ 32) is)\<rparr>) \<and>
   (hasIndexBuffer m' \<longrightarrow>
      draw m' commandBuffer = commandBuffer @ [vkCmdDrawIndexed (indexCount m') 1 0 0 0]) \<and>
   (\<not> hasIndexBuffer m' \<longrightarrow>
      draw m' commandBuffer = commandBuffer @ [vkCmdDraw (vertexCount m') 1 0 0])"
proof -
  have flag: "hasIndexBuffer (createIndexBuffer is m) = (length is mod 2 ^ 32 \<noteq> 0)"
    by (simp add: createIndexBuffer_def Let_def uint32_gt_0)
  have short: "hasIndexBuffer (createIndexBuffer is m) = (is \<noteq> [])" if "length is < 2 ^ 32"
    using that by (simp add: flag)
  have skip: "createIndexBuffer is m = m\<lparr>indexCount := 0, hasIndexBuffer := False\<rparr>"
    if "\<not> hasIndexBuffer (createIndexBuffer is m)"
  proof -
    from that have z: "length is mod 2 ^ 32 = 0" by (simp add: flag)
    then have "unat (of_nat (length is) :: uint32_t) = 0" by (simp add: unat_of_nat)
    then have "(of_nat (length is) :: uint32_t) = 0" by (simp add: unat_eq_0)
    then show ?thesis by (simp add: createIndexBuffer_def Let_def)
  qed
  have made: "createIndexBuffer is m =
        m\<lparr>indexCount := of_nat (length is), hasIndexBuffer := True,
          indexBuffer := Some (take (length is mod 2 ^ 32) is)\<rparr>"
    if "hasIndexBuffer (createIndexBuffer is m)"
  proof -
    from that have "length is mod 2 ^ 32 \<noteq> 0" by (simp add: flag)
    then show ?thesis by (simp add: createIndexBuffer_def Let_def uint32_gt_0 unat_of_nat)
  qed
  have d1: "draw m' commandBuffer = commandBuffer @ [vkCmdDrawIndexed (indexCount m') 1 0 0 0]"
    if "hasIndexBuffer m'" using that by (simp add: draw_def)
  have d2: "draw m' commandBuffer = commandBuffer @ [vkCmdDraw (vertexCount m') 1 0 0]"
    if "\<not> hasIndexBuffer m'" using that by (simp add: draw_def)
  show ?thesis using flag short skip made d1 d2 by blast
qed

theorem createIndexBuffer_draw_witness:
  "length (indices quad_builder) < 2 ^ 32 \<and>
   hasIndexBuffer (createIndexBuffer (indices quad_builder) model_members) \<and>
   draw (createIndexBuffer (indices quad_builder) model_members) [] =
     [vkCmdDrawIndexed 6 1 0 0 0] \<and>
   \<not> hasIndexBuffer (createIndexBuffer [] (model_members\<lparr>vertexCount := 4\<rparr>)) \<and>
   createIndexBuffer [] (model_members\<lparr>vertexCount := 4\<rparr>) = model_members\<lparr>vertexCount := 4\<rparr> \<and>
   draw (createIndexBuffer [] (model_members\<lparr>vertexCount := 4\<rparr>)) [] = [vkCmdDraw 4 1 0 0]"
proof -
  have len: "length (indices quad_builder) < 2 ^ 32" and ne: "indices quad_builder \<noteq> []"
    and n: "(of_nat (length (indices quad_builder)) :: uint32_t) = 6"
    by (simp_all add: quad_builder_def)
  note t1 = createIndexBuffer_draw [of "indices quad_builder" model_members
      "createIndexBuffer (indices quad_builder) model_members" "[]"]
  note t2 = createIndexBuffer_draw [of "[]" "model_members\<lparr>vertexCount := 4\<rparr>"
      "createIndexBuffer [] (model_members\<lparr>vertexCount := 4\<rparr>)" "[]"]
  from t1 len ne have h1: "hasIndexBuffer (createIndexBuffer (indices quad_builder) model_members)"
    by blast
  with t1 have "draw (createIndexBuffer (indices quad_builder) model_members) [] =
      [] @ [vkCmdDrawIndexed (indexCount (createIndexBuffer (indices quad_builder) model_members)) 1 0 0 0]"
    and "createIndexBuffer (indices quad_builder) model_members =
        model_members\<lparr>indexCount := of_nat (length (indices quad_builder)), hasIndexBuffer := True,
          indexBuffer := Some (take (length (indices quad_builder) mod 2 ^ 32) (indices quad_builder))\<rparr>"
    by blast+
  then have d1: "draw (createIndexBuffer (indices quad_builder) model_members) [] =
     [vkCmdDrawIndexed 6 1 0 0 0]"
    by (simp add: n)
  from t2 have h2: "\<not> hasIndexBuffer (createIndexBuffer [] (model_members\<lparr>vertexCount := 4\<rparr>))"
    by simp
  with t2 have e2: "createIndexBuffer [] (model_members\<lparr>vertexCount := 4\<rparr>) =
      model_members\<lparr>vertexCount := 4, indexCount := 0, hasIndexBuffer := False\<rparr>"
    and "draw (createIndexBuffer [] (model_members\<lparr>vertexCount := 4\<rparr>)) [] =
      [] @ [vkCmdDraw (vertexCount (createIndexBuffer [] (model_members\<lparr>vertexCount := 4\<rparr>))) 1 0 0]"
    by blast+
  then have d2: "draw (createIndexBuffer [] (model_members\<lparr>vertexCount := 4\<rparr>)) [] = [vkCmdDraw 4 1 0 0]"
    by simp
  from e2 have e2': "createIndexBuffer [] (model_members\<lparr>vertexCount := 4\<rparr>) = model_members\<lparr>vertexCount := 4\<rparr>"
    by (simp add: model_members_def)
  from len h1 d1 h2 e2' d2 show ?thesis by (intro conjI)
qed

text \<open>
  C6, as stated ("the flag is set if and only if the index sequence is non-empty"), fails
  for a sequence of \<open>2^32\<close> indices: the narrowed count is 0 and the flag is not set.
\<close>

theorem createIndexBuffer_wraps:
  "replicate 4294967296 (0 :: uint32_t) \<noteq> [] \<and>
   \<not> hasIndexBuffer (createIndexBuffer (replicate 4294967296 0) model_members)"
  by (simp add: createIndexBuffer_def Let_def)

section \<open>renderer::recreateSwapchain: the loop\<close>

lemma polled_0: "polled 0 r = r"
  by (simp add: polled_def)

lemma polled_step:
  "getExtent (polled i r) =
     (extents (windowInstance r) (polls (windowInstance r) + i),
      do_call (window_getExtent (extents (windowInstance r) (polls (windowInstance r) + i)))
        ((polled i r)\<lparr>windowInstance := (windowInstance r)\<lparr>polls := Suc (polls (windowInstance r) + i)\<rparr>\<rparr>))"
  by (simp add: getExtent_def polled_def Let_def)

lemma polled_Suc:
  "do_call glfwWaitEvents (snd (getExtent (polled i r))) = polled (Suc i) r"
  by (simp add: getExtent_def polled_def Let_def do_call_def)

lemma wait_loop_exit: "\<not> degenerate e \<Longrightarrow> wait_loop e r = Some (e, r)"
  by (subst wait_loop.simps) (simp add: degenerate_def)

lemma wait_loop_again:
  "degenerate e \<Longrightarrow>
     wait_loop e (polled i r) =
       wait_loop (extents (windowInstance r) (polls (windowInstance r) + i)) (polled (Suc i) r)"
proof -
  assume d: "degenerate e"
  have "wait_loop e (polled i r) =
      (case getExtent (polled i r) of (e', r1) \<Rightarrow> wait_loop e' (do_call glfwWaitEvents r1))"
    using d by (subst wait_loop.simps) (simp add: degenerate_def)
  also have "\<dots> = wait_loop (fst (getExtent (polled i r)))
                      (do_call glfwWaitEvents (snd (getExtent (polled i r))))"
    by (simp add: case_prod_beta)
  also have "\<dots> = wait_loop (extents (windowInstance r) (polls (windowInstance r) + i))
                      (polled (Suc i) r)"
    by (simp only: polled_Suc) (simp add: polled_step)
  finally show ?thesis .
qed

lemma wait_loop_returns_from:
  assumes "degenerate e" and "i \<le> k"
    and "\<forall>j. i \<le> j \<and> j < k \<longrightarrow> degenerate (extents (windowInstance r) (polls (windowInstance r) + j))"
    and "\<not> degenerate (extents (windowInstance r) (polls (windowInstance r) + k))"
  shows "wait_loop e (polled i r) =
           Some (extents (windowInstance r) (polls (windowInstance r) + k), polled (Suc k) r)"
  using assms
proof (induction "k - i" arbitrary: i e)
  case 0
  then have "i = k" by simp
  with 0 show ?case by (simp add: wait_loop_again wait_loop_exit)
next
  case (Suc n)
  then have lt: "i < k" by simp
  with Suc.prems have d: "degenerate (extents (windowInstance r) (polls (windowInstance r) + i))"
    by simp
  have "wait_loop (extents (windowInstance r) (polls (windowInstance r) + i)) (polled (Suc i) r) =
      Some (extents (windowInstance r) (polls (windowInstance r) + k), polled (Suc k) r)"
  proof (rule Suc.hyps(1) [OF _ d])
    show "n = k - Suc i" using Suc.hyps(2) by simp
    show "Suc i \<le> k" using lt by simp
    show "\<forall>j. Suc i \<le> j \<and> j < k \<longrightarrow>
        degenerate (extents (windowInstance r) (polls (windowInstance r) + j))"
      using Suc.prems(3) by simp
    show "\<not> degenerate (extents (windowInstance r) (polls (windowInstance r) + k))"
      by (rule Suc.prems(4))
  qed
  then show ?case using Suc.prems(1) by (simp add: wait_loop_again)
qed

lemma wait_loop_returns:
  assumes "degenerate e"
    and "\<forall>j < k. degenerate (extents (windowInstance r) (polls (windowInstance r) + j))"
    and "\<not> degenerate (extents (windowInstance r) (polls (windowInstance r) + k))"
  shows "wait_loop e r =
           Some (extents (windowInstance r) (polls (windowInstance r) + k), polled (Suc k) r)"
  using wait_loop_returns_from [of e 0 k r] assms by (simp add: polled_0)

lemma wait_loop_never:
  assumes "wait_loop e r = Some y"
  shows "\<not> (degenerate e \<and> (\<forall>k. degenerate (extents (windowInstance r) (polls (windowInstance r) + k))))"
proof (rule wait_loop.raw_induct
    [where P = "\<lambda>e r y. \<not> (degenerate e \<and>
        (\<forall>k. degenerate (extents (windowInstance r) (polls (windowInstance r) + k))))",
      OF _ assms])
  fix f e r and y :: "VkExtent2D \<times> renderer"
  assume IH: "\<And>e r y. f e r = Some y \<Longrightarrow> \<not> (degenerate e \<and>
        (\<forall>k. degenerate (extents (windowInstance r) (polls (windowInstance r) + k))))"
    and body: "(if width e = 0 \<or> height e = 0
      then case getExtent r of (e', r1) \<Rightarrow> f e' (do_call glfwWaitEvents r1)
      else Some (e, r)) = Some y"
  show "\<not> (degenerate e \<and>
        (\<forall>k. degenerate (extents (windowInstance r) (polls (windowInstance r) + k))))"
  proof
    assume a: "degenerate e \<and> (\<forall>k. degenerate (extents (windowInstance r) (polls (windowInstance r) + k)))"
    let ?e1 = "fst (getExtent r)" and ?r1 = "do_call glfwWaitEvents (snd (getExtent r))"
    from a body have run: "f ?e1 ?r1 = Some y"
      by (simp add: degenerate_def case_prod_beta)
    have e1: "?e1 = extents (windowInstance r) (polls (windowInstance r) + 0)"
      by (simp add: getExtent_def Let_def)
    have w1: "extents (windowInstance ?r1) = extents (windowInstance r)"
      and p1: "polls (windowInstance ?r1) = Suc (polls (windowInstance r))"
      by (simp_all add: getExtent_def Let_def do_call_def)
    from a have "degenerate ?e1" unfolding e1 by blast
    moreover have "\<forall>k. degenerate (extents (windowInstance ?r1) (polls (windowInstance ?r1) + k))"
    proof
      fix k
      from a have "degenerate (extents (windowInstance r) (polls (windowInstance r) + Suc k))"
        by blast
      then show "degenerate (extents (windowInstance ?r1) (polls (windowInstance ?r1) + k))"
        by (simp add: w1 p1)
    qed
    ultimately show False using IH [OF run] by blast
  qed
qed

lemma wait_loop_None:
  assumes "degenerate e"
    and "\<forall>k. degenerate (extents (windowInstance r) (polls (windowInstance r) + k))"
  shows "wait_loop e r = None"
proof (cases "wait_loop e r")
  case None
  then show ?thesis .
next
  case (Some y)
  from wait_loop_never [OF Some] assms show ?thesis by blast
qed


lemma recreateSwapchain_None:
  assumes "\<forall>k. degenerate (extents (windowInstance r) (polls (windowInstance r) + k))"
  shows "recreateSwapchain env r = None"
proof -
  let ?e0 = "fst (getExtent r)" and ?r0 = "snd (getExtent r)"
  have e0: "?e0 = extents (windowInstance r) (polls (windowInstance r) + 0)"
    by (simp add: getExtent_def Let_def)
  have w0: "extents (windowInstance ?r0) = extents (windowInstance r)"
    and p0: "polls (windowInstance ?r0) = Suc (polls (windowInstance r))"
    by (simp_all add: getExtent_def Let_def do_call_def)
  from assms have d0: "degenerate ?e0" unfolding e0 by blast
  have "\<forall>k. degenerate (extents (windowInstance ?r0) (polls (windowInstance ?r0) + k))"
  proof
    fix k
    from assms have "degenerate (extents (windowInstance r) (polls (windowInstance r) + Suc k))"
      by blast
    then show "degenerate (extents (windowInstance ?r0) (polls (windowInstance ?r0) + k))"
      by (simp add: w0 p0)
  qed
  with d0 have "wait_loop ?e0 ?r0 = None" by (rule wait_loop_None)
  then show ?thesis by (simp add: recreateSwapchain_def case_prod_beta)
qed

lemma recreateSwapchain_wait:
  assumes "\<not> degenerate (extents (windowInstance r) (polls (windowInstance r) + k))"
    and "\<forall>j < k. degenerate (extents (windowInstance r) (polls (windowInstance r) + j))"
  shows "wait_loop (fst (getExtent r)) (snd (getExtent r)) =
     Some (extents (windowInstance r) (polls (windowInstance r) + k),
           r\<lparr>windowInstance := (windowInstance r)\<lparr>polls := polls (windowInstance r) + Suc k\<rparr>,
             calls := calls r @
               window_getExtent (extents (windowInstance r) (polls (windowInstance r))) #
               concat (map (\<lambda>j. [window_getExtent
                                   (extents (windowInstance r) (polls (windowInstance r) + Suc j)),
                                 glfwWaitEvents]) [0..<k])\<rparr>)"
proof (cases k)
  case 0
  with assms(1) have "\<not> degenerate (fst (getExtent r))"
    by (simp add: getExtent_def Let_def)
  then have "wait_loop (fst (getExtent r)) (snd (getExtent r)) =
      Some (fst (getExtent r), snd (getExtent r))"
    by (rule wait_loop_exit)
  then show ?thesis using 0 by (simp add: getExtent_def Let_def do_call_def)
next
  case (Suc k')
  let ?e0 = "fst (getExtent r)" and ?r0 = "snd (getExtent r)"
  have w0: "extents (windowInstance ?r0) = extents (windowInstance r)"
    and p0: "polls (windowInstance ?r0) = Suc (polls (windowInstance r))"
    by (simp_all add: getExtent_def Let_def do_call_def)
  from assms(2) Suc have "degenerate (extents (windowInstance r) (polls (windowInstance r) + 0))"
    by blast
  then have d0: "degenerate ?e0"
    by (simp add: getExtent_def Let_def)
  have d: "\<forall>j < k'. degenerate (extents (windowInstance ?r0) (polls (windowInstance ?r0) + j))"
  proof (intro allI impI)
    fix j assume "j < k'"
    then have "Suc j < k" using Suc by simp
    with assms(2) have "degenerate (extents (windowInstance r) (polls (windowInstance r) + Suc j))"
      by blast
    then show "degenerate (extents (windowInstance ?r0) (polls (windowInstance ?r0) + j))"
      by (simp add: w0 p0)
  qed
  have n: "\<not> degenerate (extents (windowInstance ?r0) (polls (windowInstance ?r0) + k'))"
    using assms(1) Suc by (simp add: w0 p0)
  from wait_loop_returns [OF d0 d n]
  have "wait_loop ?e0 ?r0 =
      Some (extents (windowInstance ?r0) (polls (windowInstance ?r0) + k'), polled (Suc k') ?r0)" .
  moreover have "extents (windowInstance ?r0) (polls (windowInstance ?r0) + k') =
      extents (windowInstance r) (polls (windowInstance r) + k)"
    using Suc by (simp add: w0 p0)
  moreover have "polled (Suc k') ?r0 =
      r\<lparr>windowInstance := (windowInstance r)\<lparr>polls := polls (windowInstance r) + Suc k\<rparr>,
        calls := calls r @
          window_getExtent (extents (windowInstance r) (polls (windowInstance r))) #
          concat (map (\<lambda>j. [window_getExtent
                              (extents (windowInstance r) (polls (windowInstance r) + Suc j)),
                            glfwWaitEvents]) [0..<k])\<rparr>"
    unfolding Suc by (simp add: polled_def getExtent_def Let_def do_call_def)
  ultimately show ?thesis by simp
qed

lemma recreateSwapchain_returns:
  assumes "\<not> degenerate (extents (windowInstance r) (polls (windowInstance r) + k))"
    and "\<forall>j < k. degenerate (extents (windowInstance r) (polls (windowInstance r) + j))"
  shows "recreateSwapchain env r = Some (recreate_outcome env r, recreated k r)"
proof (cases "swapchainInstance r")
  case None
  then show ?thesis
    by (simp add: recreateSwapchain_def case_prod_beta recreateSwapchain_wait [OF assms]
        recreate_outcome_def recreated_def Let_def do_call_def)
next
  case (Some old)
  then show ?thesis
    by (simp add: recreateSwapchain_def case_prod_beta recreateSwapchain_wait [OF assms]
        recreate_outcome_def recreated_def Let_def do_call_def)
qed

lemma recreateSwapchain_Some:
  assumes "recreateSwapchain env r = Some (res, r')"
  shows "\<exists>k. \<not> degenerate (extents (windowInstance r) (polls (windowInstance r) + k)) \<and>
             (\<forall>j < k. degenerate (extents (windowInstance r) (polls (windowInstance r) + j))) \<and>
             res = recreate_outcome env r \<and> r' = recreated k r"
proof -
  let ?D = "\<lambda>k. degenerate (extents (windowInstance r) (polls (windowInstance r) + k))"
  have "\<not> (\<forall>k. ?D k)"
  proof
    assume "\<forall>k. ?D k"
    then have "recreateSwapchain env r = None" by (rule recreateSwapchain_None)
    with assms show False by simp
  qed
  then have "\<exists>k. \<not> ?D k" by blast
  then obtain k where k: "\<not> ?D k" "\<forall>j < k. \<not> \<not> ?D j"
    using exists_least_iff [of "\<lambda>k. \<not> ?D k"] by blast
  then have all: "\<forall>j < k. ?D j" by blast
  from recreateSwapchain_returns [OF k(1) all, of env] assms
  have "res = recreate_outcome env r \<and> r' = recreated k r" by simp
  with k(1) all show ?thesis by blast
qed

lemma recreated_fields:
  "isFrameStarted (recreated k r) = isFrameStarted r"
  "currentFrameIndex (recreated k r) = currentFrameIndex r"
  "currentImageIndex (recreated k r) = currentImageIndex r"
  "commandBuffers (recreated k r) = commandBuffers r"
  "swapchainInstance (recreated k r) =
     Some (swapchain (extents (windowInstance r) (polls (windowInstance r) + k)))"
  by (simp_all add: recreated_def Let_def)

text \<open>The example window.\<close>

lemma mock_window_extents:
  "degenerate (extents mock_window (polls mock_window + 0))"
  "degenerate (extents mock_window (polls mock_window + 1))"
  "\<not> degenerate (extents mock_window (polls mock_window + 2))"
  "extents mock_window (polls mock_window + 2) = \<lparr>width = 800, height = 600\<rparr>"
  by (simp_all add: mock_window_def degenerate_def)

lemma mock_window_first:
  "\<forall>j < 2. degenerate (extents mock_window (polls mock_window + j))"
  by (simp add: mock_window_def degenerate_def)

section \<open>renderer::recreateSwapchain\<close>

text \<open>
  C9. For every sequence of extents that the window reports: if all of them are
  degenerate, \<^verbatim>\<open>recreateSwapchain\<close> never leaves its loop and constructs nothing. If the
  \<open>k\<close>-th next answer is the first that is not degenerate, the call polls the window
  once, then \<open>k\<close> times polls again and blocks on window events, then waits for the
  device to be idle, and only then constructs the one new swapchain, with that
  non-degenerate extent; every extent observed before it was degenerate.
\<close>

theorem recreateSwapchain_waits_for_extent:
  "((\<forall>k. degenerate (extents (windowInstance r) (polls (windowInstance r) + k))) \<longrightarrow>
      recreateSwapchain env r = None) \<and>
   (\<not> degenerate (extents (windowInstance r) (polls (windowInstance r) + k)) \<and>
    (\<forall>j < k. degenerate (extents (windowInstance r) (polls (windowInstance r) + j))) \<longrightarrow>
      (\<exists>res r'. recreateSwapchain env r = Some (res, r') \<and>
         swapchainInstance r' =
           Some (swapchain (extents (windowInstance r) (polls (windowInstance r) + k))) \<and>
         calls r' = calls r @
           window_getExtent (extents (windowInstance r) (polls (windowInstance r))) #
           concat (map (\<lambda>j. [window_getExtent
                               (extents (windowInstance r) (polls (windowInstance r) + Suc j)),
                             glfwWaitEvents]) [0..<k]) @
           vkDeviceWaitIdle #
           swapchain_new (extents (windowInstance r) (polls (windowInstance r) + k))
             (swapchainInstance r \<noteq> None) #
           (if swapchainInstance r = None then [] else [swapchain_compareSwapFormats])))"
proof (intro conjI impI)
  assume "\<forall>k. degenerate (extents (windowInstance r) (polls (windowInstance r) + k))"
  then show "recreateSwapchain env r = None" by (rule recreateSwapchain_None)
next
  assume a: "\<not> degenerate (extents (windowInstance r) (polls (windowInstance r) + k)) \<and>
    (\<forall>j < k. degenerate (extents (windowInstance r) (polls (windowInstance r) + j)))"
  then have "recreateSwapchain env r = Some (recreate_outcome env r, recreated k r)"
    by (intro recreateSwapchain_returns) blast+
  moreover have "swapchainInstance (recreated k r) =
           Some (swapchain (extents (windowInstance r) (polls (windowInstance r) + k)))"
    by (simp add: recreated_def Let_def)
  moreover have "calls (recreated k r) = calls r @
           window_getExtent (extents (windowInstance r) (polls (windowInstance r))) #
           concat (map (\<lambda>j. [window_getExtent
                               (extents (windowInstance r) (polls (windowInstance r) + Suc j)),
                             glfwWaitEvents]) [0..<k]) @
           vkDeviceWaitIdle #
           swapchain_new (extents (windowInstance r) (polls (windowInstance r) + k))
             (swapchainInstance r \<noteq> None) #
           (if swapchainInstance r = None then [] else [swapchain_compareSwapFormats])"
    by (simp add: recreated_def Let_def)
  ultimately show "\<exists>res r'. recreateSwapchain env r = Some (res, r') \<and>
         swapchainInstance r' =
           Some (swapchain (extents (windowInstance r) (polls (windowInstance r) + k))) \<and>
         calls r' = calls r @
           window_getExtent (extents (windowInstance r) (polls (windowInstance r))) #
           concat (map (\<lambda>j. [window_getExtent
                               (extents (windowInstance r) (polls (windowInstance r) + Suc j)),
                             glfwWaitEvents]) [0..<k]) @
           vkDeviceWaitIdle #
           swapchain_new (extents (windowInstance r) (polls (windowInstance r) + k))
             (swapchainInstance r \<noteq> None) #
           (if swapchainInstance r = None then [] else [swapchain_compareSwapFormats])"
    by blast
qed

theorem recreateSwapchain_waits_for_extent_witness:
  "recreateSwapchain (answers VK_SUCCESS VK_SUCCESS) (fresh_renderer minimised_window) = None \<and>
   (\<exists>res r'. recreateSwapchain (answers VK_SUCCESS VK_SUCCESS) (fresh_renderer mock_window) =
        Some (res, r') \<and>
      swapchainInstance r' = Some (swapchain \<lparr>width = 800, height = 600\<rparr>) \<and>
      calls r' =
        [window_getExtent \<lparr>width = 0, height = 0\<rparr>,
         window_getExtent \<lparr>width = 0, height = 0\<rparr>, glfwWaitEvents,
         window_getExtent \<lparr>width = 800, height = 600\<rparr>, glfwWaitEvents,
         vkDeviceWaitIdle,
         swapchain_new \<lparr>width = 800, height = 600\<rparr> False])"
proof -
  let ?env = "answers VK_SUCCESS VK_SUCCESS"
  have m: "\<forall>k. degenerate (extents (windowInstance (fresh_renderer minimised_window))
      (polls (windowInstance (fresh_renderer minimised_window)) + k))"
    by (simp add: fresh_renderer_def minimised_window_def degenerate_def)
  have w: "windowInstance (fresh_renderer mock_window) = mock_window"
    and s: "swapchainInstance (fresh_renderer mock_window) = None"
    and c: "calls (fresh_renderer mock_window) = []"
    by (simp_all add: fresh_renderer_def)
  have up: "[0..<2] = [0, Suc 0]" by (simp add: upt_rec)
  from recreateSwapchain_waits_for_extent [of "fresh_renderer minimised_window" ?env 0] m
  have 1: "recreateSwapchain ?env (fresh_renderer minimised_window) = None" by blast
  from recreateSwapchain_waits_for_extent [of "fresh_renderer mock_window" ?env 2]
    mock_window_extents(3) mock_window_first
  have "\<exists>res r'. recreateSwapchain ?env (fresh_renderer mock_window) = Some (res, r') \<and>
         swapchainInstance r' =
           Some (swapchain (extents mock_window (polls mock_window + 2))) \<and>
         calls r' = [] @
           window_getExtent (extents mock_window (polls mock_window)) #
           concat (map (\<lambda>j. [window_getExtent (extents mock_window (polls mock_window + Suc j)),
                             glfwWaitEvents]) [0..<2]) @
           vkDeviceWaitIdle #
           swapchain_new (extents mock_window (polls mock_window + 2)) (None \<noteq> (None :: swapchain option)) #
           (if (None :: swapchain option) = None then [] else [swapchain_compareSwapFormats])"
    unfolding w s c by blast
  then have 2: "\<exists>res r'. recreateSwapchain ?env (fresh_renderer mock_window) = Some (res, r') \<and>
      swapchainInstance r' = Some (swapchain \<lparr>width = 800, height = 600\<rparr>) \<and>
      calls r' =
        [window_getExtent \<lparr>width = 0, height = 0\<rparr>,
         window_getExtent \<lparr>width = 0, height = 0\<rparr>, glfwWaitEvents,
         window_getExtent \<lparr>width = 800, height = 600\<rparr>, glfwWaitEvents,
         vkDeviceWaitIdle,
         swapchain_new \<lparr>width = 800, height = 600\<rparr> False]"
    by (simp add: up mock_window_def)
  from 1 2 show ?thesis by (intro conjI)
qed

section \<open>renderer::beginFrame\<close>


lemma beginFrame_started:
  "isFrameStarted r \<Longrightarrow>
     beginFrame env r =
       Some (Inl (assertion_failure ''Can't call beginFrame while already in progress''), r)"
  by (simp add: beginFrame_def)

lemma acquired_fields:
  "windowInstance (acquired env r) = windowInstance r"
  "swapchainInstance (acquired env r) = swapchainInstance r"
  "isFrameStarted (acquired env r) = isFrameStarted r"
  "currentFrameIndex (acquired env r) = currentFrameIndex r"
  "commandBuffers (acquired env r) = commandBuffers r"
  "calls (acquired env r) = calls r @ [swapchain_acquireNextImage]"
  by (simp_all add: acquired_def do_call_def)

lemma beginFrame_out_of_date:
  assumes "\<not> isFrameStarted r" and "swapchainInstance r \<noteq> None"
    and "fst (acquireNextImage_result env) = VK_ERROR_OUT_OF_DATE_KHR"
  shows "beginFrame env r =
     (case recreateSwapchain env (acquired env r) of
        None \<Rightarrow> None
      | Some (Inl e, r2) \<Rightarrow> Some (Inl e, r2)
      | Some (Inr u, r2) \<Rightarrow> Some (Inr nullptr, r2))"
  using assms by (auto simp: beginFrame_def acquired_def Let_def)

lemma beginFrame_other_status:
  assumes "\<not> isFrameStarted r" and "swapchainInstance r \<noteq> None"
    and "fst (acquireNextImage_result env) \<noteq> VK_ERROR_OUT_OF_DATE_KHR"
    and "fst (acquireNextImage_result env) \<noteq> VK_SUCCESS"
    and "fst (acquireNextImage_result env) \<noteq> VK_SUBOPTIMAL_KHR"
  shows "beginFrame env r =
     Some (Inl (runtime_error ''failed to acquire swap chain image!''), acquired env r)"
  using assms by (auto simp: beginFrame_def acquired_def Let_def)

lemma beginFrame_usable:
  assumes "\<not> isFrameStarted r" and "swapchainInstance r \<noteq> None"
    and "fst (acquireNextImage_result env) = VK_SUCCESS \<or>
         fst (acquireNextImage_result env) = VK_SUBOPTIMAL_KHR"
    and "0 \<le> currentFrameIndex r" and "nat (currentFrameIndex r) < length (commandBuffers r)"
  shows "beginFrame env r =
     (if vkBeginCommandBuffer_result env \<noteq> VK_SUCCESS
      then Some (Inl (runtime_error ''failed to begin recording command buffer!''),
             do_call (vkBeginCommandBuffer (commandBuffers r ! nat (currentFrameIndex r)))
               ((acquired env r)\<lparr>isFrameStarted := True\<rparr>))
      else Some (Inr (commandBuffers r ! nat (currentFrameIndex r)),
             do_call (vkBeginCommandBuffer (commandBuffers r ! nat (currentFrameIndex r)))
               ((acquired env r)\<lparr>isFrameStarted := True\<rparr>)))"
  using assms
  by (auto simp: beginFrame_def acquired_def Let_def getCurrentCommandBuffer_def do_call_def
      VK_SUCCESS_def VK_SUBOPTIMAL_KHR_def VK_ERROR_OUT_OF_DATE_KHR_def)


lemma recreated_acquired:
  "isFrameStarted (recreated k (acquired env r)) = isFrameStarted r"
  "currentFrameIndex (recreated k (acquired env r)) = currentFrameIndex r"
  "swapchainInstance (recreated k (acquired env r)) =
     Some (swapchain (extents (windowInstance r) (polls (windowInstance r) + k)))"
  "calls (recreated k (acquired env r)) = calls r @
     swapchain_acquireNextImage #
     window_getExtent (extents (windowInstance r) (polls (windowInstance r))) #
     concat (map (\<lambda>j. [window_getExtent
                         (extents (windowInstance r) (polls (windowInstance r) + Suc j)),
                       glfwWaitEvents]) [0..<k]) @
     vkDeviceWaitIdle #
     swapchain_new (extents (windowInstance r) (polls (windowInstance r) + k))
       (swapchainInstance r \<noteq> None) #
     (if swapchainInstance r = None then [] else [swapchain_compareSwapFormats])"
  by (simp_all add: recreated_def acquired_def do_call_def Let_def)

lemma idle_renderer_fields:
  "windowInstance (idle_renderer w) = w"
  "swapchainInstance (idle_renderer w) = Some (swapchain \<lparr>width = 640, height = 480\<rparr>)"
  "commandBuffers (idle_renderer w) = [handle 1, handle 2]"
  "currentFrameIndex (idle_renderer w) = 0"
  "currentImageIndex (idle_renderer w) = 0"
  "isFrameStarted (idle_renderer w) = False"
  "calls (idle_renderer w) = []"
  by (simp_all add: idle_renderer_def)

lemma upt_2: "[0..<2] = [0, Suc 0]"
  by (simp add: upt_rec)

text \<open>
  C7. \<^verbatim>\<open>beginFrame\<close> called while a frame is started fails its assertion. Otherwise, when
  the image acquisition reports out-of-date, it recreates the swapchain and, once the
  recreation has returned (the window has reported a non-degenerate extent and the
  formats compare equal), returns a null command buffer, with \<^verbatim>\<open>isFrameStarted\<close> still
  false and without any call of \<^verbatim>\<open>vkBeginCommandBuffer\<close>; if the formats differ the
  recreation's error is thrown, and while the window stays degenerate the call does not
  return. A status other than out-of-date, success and suboptimal throws "failed to
  acquire swap chain image!". On success or suboptimal it sets \<^verbatim>\<open>isFrameStarted\<close>, begins
  recording on the command buffer of the current frame slot and returns that buffer
  (and throws if \<^verbatim>\<open>vkBeginCommandBuffer\<close> fails).
\<close>

theorem beginFrame_cases:
  "(isFrameStarted r \<longrightarrow>
      beginFrame env r =
        Some (Inl (assertion_failure ''Can't call beginFrame while already in progress''), r)) \<and>
   (\<not> isFrameStarted r \<and> swapchainInstance r \<noteq> None \<and>
    fst (acquireNextImage_result env) = VK_ERROR_OUT_OF_DATE_KHR \<and>
    \<not> degenerate (extents (windowInstance r) (polls (windowInstance r) + k)) \<and>
    (\<forall>j < k. degenerate (extents (windowInstance r) (polls (windowInstance r) + j))) \<and>
    compareSwapFormats_result env \<longrightarrow>
      (\<exists>r'. beginFrame env r = Some (Inr nullptr, r') \<and>
         \<not> isFrameStarted r' \<and>
         swapchainInstance r' =
           Some (swapchain (extents (windowInstance r) (polls (windowInstance r) + k))) \<and>
         calls r' = calls r @
           swapchain_acquireNextImage #
           window_getExtent (extents (windowInstance r) (polls (windowInstance r))) #
           concat (map (\<lambda>j. [window_getExtent
                               (extents (windowInstance r) (polls (windowInstance r) + Suc j)),
                             glfwWaitEvents]) [0..<k]) @
           [vkDeviceWaitIdle,
            swapchain_new (extents (windowInstance r) (polls (windowInstance r) + k)) True,
            swapchain_compareSwapFormats] \<and>
         (\<forall>commandBuffer.
            vkBeginCommandBuffer commandBuffer \<notin> set (drop (length (calls r)) (calls r'))))) \<and>
   (\<not> isFrameStarted r \<and> swapchainInstance r \<noteq> None \<and>
    fst (acquireNextImage_result env) = VK_ERROR_OUT_OF_DATE_KHR \<and>
    \<not> degenerate (extents (windowInstance r) (polls (windowInstance r) + k)) \<and>
    (\<forall>j < k. degenerate (extents (windowInstance r) (polls (windowInstance r) + j))) \<and>
    \<not> compareSwapFormats_result env \<longrightarrow>
      (\<exists>r'. beginFrame env r =
         Some (Inl (runtime_error ''swap chain image or depth format has changed!''), r'))) \<and>
   (\<not> isFrameStarted r \<and> swapchainInstance r \<noteq> None \<and>
    fst (acquireNextImage_result env) = VK_ERROR_OUT_OF_DATE_KHR \<and>
    (\<forall>j. degenerate (extents (windowInstance r) (polls (windowInstance r) + j))) \<longrightarrow>
      beginFrame env r = None) \<and>
   (\<not> isFrameStarted r \<and> swapchainInstance r \<noteq> None \<and>
    fst (acquireNextImage_result env) \<noteq> VK_ERROR_OUT_OF_DATE_KHR \<and>
    fst (acquireNextImage_result env) \<noteq> VK_SUCCESS \<and>
    fst (acquireNextImage_result env) \<noteq> VK_SUBOPTIMAL_KHR \<longrightarrow>
      beginFrame env r =
        Some (Inl (runtime_error ''failed to acquire swap chain image!''),
              r\<lparr>currentImageIndex := snd (acquireNextImage_result env),
                calls := calls r @ [swapchain_acquireNextImage]\<rparr>)) \<and>
   (\<not> isFrameStarted r \<and> swapchainInstance r \<noteq> None \<and>
    (fst (acquireNextImage_result env) = VK_SUCCESS \<or>
     fst (acquireNextImage_result env) = VK_SUBOPTIMAL_KHR) \<and>
    0 \<le> currentFrameIndex r \<and> nat (currentFrameIndex r) < length (commandBuffers r) \<and>
    vkBeginCommandBuffer_result env = VK_SUCCESS \<longrightarrow>
      beginFrame env r =
        Some (Inr (commandBuffers r ! nat (currentFrameIndex r)),
              r\<lparr>currentImageIndex := snd (acquireNextImage_result env),
                isFrameStarted := True,
                calls := calls r @
                  [swapchain_acquireNextImage,
                   vkBeginCommandBuffer (commandBuffers r ! nat (currentFrameIndex r))]\<rparr>)) \<and>
   (\<not> isFrameStarted r \<and> swapchainInstance r \<noteq> None \<and>
    (fst (acquireNextImage_result env) = VK_SUCCESS \<or>
     fst (acquireNextImage_result env) = VK_SUBOPTIMAL_KHR) \<and>
    0 \<le> currentFrameIndex r \<and> nat (currentFrameIndex r) < length (commandBuffers r) \<and>
    vkBeginCommandBuffer_result env \<noteq> VK_SUCCESS \<longrightarrow>
      (\<exists>r'. beginFrame env r =
         Some (Inl (runtime_error ''failed to begin recording command buffer!''), r') \<and>
         isFrameStarted r'))"
proof -
  let ?D = "\<lambda>j. degenerate (extents (windowInstance r) (polls (windowInstance r) + j))"
  let ?ood = "\<not> isFrameStarted r \<and> swapchainInstance r \<noteq> None \<and>
    fst (acquireNextImage_result env) = VK_ERROR_OUT_OF_DATE_KHR"
  have rec: "recreateSwapchain env (acquired env r) =
      Some (recreate_outcome env (acquired env r), recreated k (acquired env r))"
    if "\<not> ?D k" "\<forall>j < k. ?D j"
    using that by (intro recreateSwapchain_returns) (simp_all add: acquired_fields)
  have c1: "beginFrame env r =
        Some (Inl (assertion_failure ''Can't call beginFrame while already in progress''), r)"
    if "isFrameStarted r"
    using that by (rule beginFrame_started)
  have c2: "\<exists>r'. beginFrame env r = Some (Inr nullptr, r') \<and>
         \<not> isFrameStarted r' \<and>
         swapchainInstance r' =
           Some (swapchain (extents (windowInstance r) (polls (windowInstance r) + k))) \<and>
         calls r' = calls r @
           swapchain_acquireNextImage #
           window_getExtent (extents (windowInstance r) (polls (windowInstance r))) #
           concat (map (\<lambda>j. [window_getExtent
                               (extents (windowInstance r) (polls (windowInstance r) + Suc j)),
                             glfwWaitEvents]) [0..<k]) @
           [vkDeviceWaitIdle,
            swapchain_new (extents (windowInstance r) (polls (windowInstance r) + k)) True,
            swapchain_compareSwapFormats] \<and>
         (\<forall>commandBuffer.
            vkBeginCommandBuffer commandBuffer \<notin> set (drop (length (calls r)) (calls r')))"
    if a: "?ood" "\<not> ?D k" "\<forall>j < k. ?D j" "compareSwapFormats_result env"
  proof -
    let ?r' = "recreated k (acquired env r)"
    from a have "beginFrame env r = Some (Inr nullptr, ?r')"
      by (simp add: beginFrame_out_of_date rec recreate_outcome_def)
    moreover have "\<not> isFrameStarted ?r'" using a by (simp add: recreated_acquired)
    moreover have "swapchainInstance ?r' =
        Some (swapchain (extents (windowInstance r) (polls (windowInstance r) + k)))"
      by (simp add: recreated_acquired)
    moreover have cs: "calls ?r' = calls r @
           swapchain_acquireNextImage #
           window_getExtent (extents (windowInstance r) (polls (windowInstance r))) #
           concat (map (\<lambda>j. [window_getExtent
                               (extents (windowInstance r) (polls (windowInstance r) + Suc j)),
                             glfwWaitEvents]) [0..<k]) @
           [vkDeviceWaitIdle,
            swapchain_new (extents (windowInstance r) (polls (windowInstance r) + k)) True,
            swapchain_compareSwapFormats]"
      using a by (simp add: recreated_acquired)
    moreover have "\<forall>commandBuffer.
        vkBeginCommandBuffer commandBuffer \<notin> set (drop (length (calls r)) (calls ?r'))"
      unfolding cs by auto
    ultimately show ?thesis by blast
  qed
  have c3: "\<exists>r'. beginFrame env r =
         Some (Inl (runtime_error ''swap chain image or depth format has changed!''), r')"
    if a: "?ood" "\<not> ?D k" "\<forall>j < k. ?D j" "\<not> compareSwapFormats_result env"
    using a by (simp add: beginFrame_out_of_date rec recreate_outcome_def acquired_fields)
  have c4: "beginFrame env r = None" if a: "?ood" "\<forall>j. ?D j"
  proof -
    have "recreateSwapchain env (acquired env r) = None"
      using a(2) by (intro recreateSwapchain_None) (simp add: acquired_fields)
    then show ?thesis using a(1) by (simp add: beginFrame_out_of_date)
  qed
  have c5: "beginFrame env r =
        Some (Inl (runtime_error ''failed to acquire swap chain image!''),
              r\<lparr>currentImageIndex := snd (acquireNextImage_result env),
                calls := calls r @ [swapchain_acquireNextImage]\<rparr>)"
    if "\<not> isFrameStarted r" "swapchainInstance r \<noteq> None"
      "fst (acquireNextImage_result env) \<noteq> VK_ERROR_OUT_OF_DATE_KHR"
      "fst (acquireNextImage_result env) \<noteq> VK_SUCCESS"
      "fst (acquireNextImage_result env) \<noteq> VK_SUBOPTIMAL_KHR"
    using that by (simp add: beginFrame_other_status acquired_def do_call_def)
  have c6: "beginFrame env r =
        Some (Inr (commandBuffers r ! nat (currentFrameIndex r)),
              r\<lparr>currentImageIndex := snd (acquireNextImage_result env),
                isFrameStarted := True,
                calls := calls r @
                  [swapchain_acquireNextImage,
                   vkBeginCommandBuffer (commandBuffers r ! nat (currentFrameIndex r))]\<rparr>)"
    if "\<not> isFrameStarted r" "swapchainInstance r \<noteq> None"
      "fst (acquireNextImage_result env) = VK_SUCCESS \<or>
       fst (acquireNextImage_result env) = VK_SUBOPTIMAL_KHR"
      "0 \<le> currentFrameIndex r" "nat (currentFrameIndex r) < length (commandBuffers r)"
      "vkBeginCommandBuffer_result env = VK_SUCCESS"
    using that by (simp add: beginFrame_usable acquired_def do_call_def)
  have c7: "\<exists>r'. beginFrame env r =
         Some (Inl (runtime_error ''failed to begin recording command buffer!''), r') \<and>
         isFrameStarted r'"
    if "\<not> isFrameStarted r" "swapchainInstance r \<noteq> None"
      "fst (acquireNextImage_result env) = VK_SUCCESS \<or>
       fst (acquireNextImage_result env) = VK_SUBOPTIMAL_KHR"
      "0 \<le> currentFrameIndex r" "nat (currentFrameIndex r) < length (commandBuffers r)"
      "vkBeginCommandBuffer_result env \<noteq> VK_SUCCESS"
    using that by (simp add: beginFrame_usable acquired_def do_call_def)
  show ?thesis
    apply (intro conjI impI)
    subgoal by (rule c1)
    subgoal by (rule c2) blast+
    subgoal by (rule c3) blast+
    subgoal by (rule c4) blast+
    subgoal by (rule c5) blast+
    subgoal by (rule c6) blast+
    subgoal by (rule c7) blast+
    done
qed


theorem beginFrame_cases_witness:
  "beginFrame (answers VK_SUCCESS VK_SUCCESS) ((idle_renderer mock_window)\<lparr>isFrameStarted := True\<rparr>) =
     Some (Inl (assertion_failure ''Can't call beginFrame while already in progress''),
           (idle_renderer mock_window)\<lparr>isFrameStarted := True\<rparr>) \<and>
   (\<exists>r'. beginFrame (answers VK_ERROR_OUT_OF_DATE_KHR VK_SUCCESS) (idle_renderer mock_window) =
            Some (Inr nullptr, r') \<and>
          \<not> isFrameStarted r' \<and>
          swapchainInstance r' = Some (swapchain \<lparr>width = 800, height = 600\<rparr>) \<and>
          calls r' =
            [swapchain_acquireNextImage,
             window_getExtent \<lparr>width = 0, height = 0\<rparr>,
             window_getExtent \<lparr>width = 0, height = 0\<rparr>, glfwWaitEvents,
             window_getExtent \<lparr>width = 800, height = 600\<rparr>, glfwWaitEvents,
             vkDeviceWaitIdle,
             swapchain_new \<lparr>width = 800, height = 600\<rparr> True,
             swapchain_compareSwapFormats]) \<and>
   (\<exists>r'. beginFrame ((answers VK_ERROR_OUT_OF_DATE_KHR VK_SUCCESS)\<lparr>compareSwapFormats_result := False\<rparr>)
            (idle_renderer mock_window) =
            Some (Inl (runtime_error ''swap chain image or depth format has changed!''), r')) \<and>
   beginFrame (answers VK_ERROR_OUT_OF_DATE_KHR VK_SUCCESS) (idle_renderer minimised_window) = None \<and>
   beginFrame (answers (- 4) VK_SUCCESS) (idle_renderer mock_window) =
     Some (Inl (runtime_error ''failed to acquire swap chain image!''),
           (idle_renderer mock_window)\<lparr>currentImageIndex := 1, calls := [swapchain_acquireNextImage]\<rparr>) \<and>
   beginFrame (answers VK_SUBOPTIMAL_KHR VK_SUCCESS) (idle_renderer mock_window) =
     Some (Inr (handle 1),
           (idle_renderer mock_window)
             \<lparr>currentImageIndex := 1, isFrameStarted := True,
               calls := [swapchain_acquireNextImage, vkBeginCommandBuffer (handle 1)]\<rparr>) \<and>
   (\<exists>r'. beginFrame ((answers VK_SUCCESS VK_SUCCESS)\<lparr>vkBeginCommandBuffer_result := - 1\<rparr>)
            (idle_renderer mock_window) =
            Some (Inl (runtime_error ''failed to begin recording command buffer!''), r') \<and>
          isFrameStarted r')"
proof -
  let ?r = "idle_renderer mock_window"
  let ?ood = "answers VK_ERROR_OUT_OF_DATE_KHR VK_SUCCESS"
  note f = idle_renderer_fields
  have ood: "fst (acquireNextImage_result ?ood) = VK_ERROR_OUT_OF_DATE_KHR"
    "fst (acquireNextImage_result (?ood\<lparr>compareSwapFormats_result := False\<rparr>)) = VK_ERROR_OUT_OF_DATE_KHR"
    "compareSwapFormats_result ?ood" "\<not> compareSwapFormats_result (?ood\<lparr>compareSwapFormats_result := False\<rparr>)"
    by (simp_all add: answers_def)
  have win: "\<not> degenerate (extents (windowInstance ?r) (polls (windowInstance ?r) + 2))"
    "\<forall>j < 2. degenerate (extents (windowInstance ?r) (polls (windowInstance ?r) + j))"
    unfolding f using mock_window_extents(3) mock_window_first by blast+
  have idle: "\<not> isFrameStarted ?r" "swapchainInstance ?r \<noteq> None"
    "0 \<le> currentFrameIndex ?r" "nat (currentFrameIndex ?r) < length (commandBuffers ?r)"
    by (simp_all add: f)
  have 1: "beginFrame (answers VK_SUCCESS VK_SUCCESS) (?r\<lparr>isFrameStarted := True\<rparr>) =
     Some (Inl (assertion_failure ''Can't call beginFrame while already in progress''),
           ?r\<lparr>isFrameStarted := True\<rparr>)"
    using beginFrame_cases [of "?r\<lparr>isFrameStarted := True\<rparr>" "answers VK_SUCCESS VK_SUCCESS" 0]
    by simp
  from beginFrame_cases [of ?r ?ood 2] idle ood win
  have "\<exists>r'. beginFrame ?ood ?r = Some (Inr nullptr, r') \<and>
         \<not> isFrameStarted r' \<and>
         swapchainInstance r' =
           Some (swapchain (extents (windowInstance ?r) (polls (windowInstance ?r) + 2))) \<and>
         calls r' = calls ?r @
           swapchain_acquireNextImage #
           window_getExtent (extents (windowInstance ?r) (polls (windowInstance ?r))) #
           concat (map (\<lambda>j. [window_getExtent
                               (extents (windowInstance ?r) (polls (windowInstance ?r) + Suc j)),
                             glfwWaitEvents]) [0..<2]) @
           [vkDeviceWaitIdle,
            swapchain_new (extents (windowInstance ?r) (polls (windowInstance ?r) + 2)) True,
            swapchain_compareSwapFormats] \<and>
         (\<forall>commandBuffer.
            vkBeginCommandBuffer commandBuffer \<notin> set (drop (length (calls ?r)) (calls r')))"
    by blast
  then obtain r' where r': "beginFrame ?ood ?r = Some (Inr nullptr, r')" "\<not> isFrameStarted r'"
    "swapchainInstance r' =
           Some (swapchain (extents (windowInstance ?r) (polls (windowInstance ?r) + 2)))"
    "calls r' = calls ?r @
           swapchain_acquireNextImage #
           window_getExtent (extents (windowInstance ?r) (polls (windowInstance ?r))) #
           concat (map (\<lambda>j. [window_getExtent
                               (extents (windowInstance ?r) (polls (windowInstance ?r) + Suc j)),
                             glfwWaitEvents]) [0..<2]) @
           [vkDeviceWaitIdle,
            swapchain_new (extents (windowInstance ?r) (polls (windowInstance ?r) + 2)) True,
            swapchain_compareSwapFormats]"
    by blast
  from r'(3) have sw: "swapchainInstance r' = Some (swapchain \<lparr>width = 800, height = 600\<rparr>)"
    by (simp add: f mock_window_def)
  from r'(4) have cs: "calls r' =
            [swapchain_acquireNextImage,
             window_getExtent \<lparr>width = 0, height = 0\<rparr>,
             window_getExtent \<lparr>width = 0, height = 0\<rparr>, glfwWaitEvents,
             window_getExtent \<lparr>width = 800, height = 600\<rparr>, glfwWaitEvents,
             vkDeviceWaitIdle,
             swapchain_new \<lparr>width = 800, height = 600\<rparr> True,
             swapchain_compareSwapFormats]"
    by (simp add: f upt_2 mock_window_def)
  from r'(1,2) sw cs have 2: "\<exists>r'. beginFrame ?ood ?r = Some (Inr nullptr, r') \<and>
          \<not> isFrameStarted r' \<and>
          swapchainInstance r' = Some (swapchain \<lparr>width = 800, height = 600\<rparr>) \<and>
          calls r' =
            [swapchain_acquireNextImage,
             window_getExtent \<lparr>width = 0, height = 0\<rparr>,
             window_getExtent \<lparr>width = 0, height = 0\<rparr>, glfwWaitEvents,
             window_getExtent \<lparr>width = 800, height = 600\<rparr>, glfwWaitEvents,
             vkDeviceWaitIdle,
             swapchain_new \<lparr>width = 800, height = 600\<rparr> True,
             swapchain_compareSwapFormats]"
    by blast
  from beginFrame_cases [of ?r "?ood\<lparr>compareSwapFormats_result := False\<rparr>" 2] idle ood win
  have 3: "\<exists>r'. beginFrame (?ood\<lparr>compareSwapFormats_result := False\<rparr>) ?r =
            Some (Inl (runtime_error ''swap chain image or depth format has changed!''), r')"
    by blast
  have "\<forall>j. degenerate (extents (windowInstance (idle_renderer minimised_window))
      (polls (windowInstance (idle_renderer minimised_window)) + j))"
    by (simp add: f minimised_window_def degenerate_def)
  moreover have "\<not> isFrameStarted (idle_renderer minimised_window)"
    "swapchainInstance (idle_renderer minimised_window) \<noteq> None"
    by (simp_all add: f)
  ultimately have 4: "beginFrame ?ood (idle_renderer minimised_window) = None"
    using beginFrame_cases [of "idle_renderer minimised_window" ?ood 0] ood by blast
  have "fst (acquireNextImage_result (answers (- 4) VK_SUCCESS)) \<noteq> VK_ERROR_OUT_OF_DATE_KHR"
    "fst (acquireNextImage_result (answers (- 4) VK_SUCCESS)) \<noteq> VK_SUCCESS"
    "fst (acquireNextImage_result (answers (- 4) VK_SUCCESS)) \<noteq> VK_SUBOPTIMAL_KHR"
    by (simp_all add: answers_def VK_SUCCESS_def VK_SUBOPTIMAL_KHR_def VK_ERROR_OUT_OF_DATE_KHR_def)
  with beginFrame_cases [of ?r "answers (- 4) VK_SUCCESS" 0] idle
  have "beginFrame (answers (- 4) VK_SUCCESS) ?r =
        Some (Inl (runtime_error ''failed to acquire swap chain image!''),
              ?r\<lparr>currentImageIndex := snd (acquireNextImage_result (answers (- 4) VK_SUCCESS)),
                calls := calls ?r @ [swapchain_acquireNextImage]\<rparr>)"
    by blast
  then have 5: "beginFrame (answers (- 4) VK_SUCCESS) ?r =
     Some (Inl (runtime_error ''failed to acquire swap chain image!''),
           ?r\<lparr>currentImageIndex := 1, calls := [swapchain_acquireNextImage]\<rparr>)"
    by (simp add: f answers_def)
  have "fst (acquireNextImage_result (answers VK_SUBOPTIMAL_KHR VK_SUCCESS)) = VK_SUBOPTIMAL_KHR"
    "vkBeginCommandBuffer_result (answers VK_SUBOPTIMAL_KHR VK_SUCCESS) = VK_SUCCESS"
    by (simp_all add: answers_def)
  with beginFrame_cases [of ?r "answers VK_SUBOPTIMAL_KHR VK_SUCCESS" 0] idle
  have "beginFrame (answers VK_SUBOPTIMAL_KHR VK_SUCCESS) ?r =
        Some (Inr (commandBuffers ?r ! nat (currentFrameIndex ?r)),
              ?r\<lparr>currentImageIndex := snd (acquireNextImage_result (answers VK_SUBOPTIMAL_KHR VK_SUCCESS)),
                isFrameStarted := True,
                calls := calls ?r @
                  [swapchain_acquireNextImage,
                   vkBeginCommandBuffer (commandBuffers ?r ! nat (currentFrameIndex ?r))]\<rparr>)"
    by blast
  then have 6: "beginFrame (answers VK_SUBOPTIMAL_KHR VK_SUCCESS) ?r =
     Some (Inr (handle 1),
           ?r\<lparr>currentImageIndex := 1, isFrameStarted := True,
               calls := [swapchain_acquireNextImage, vkBeginCommandBuffer (handle 1)]\<rparr>)"
    by (simp add: f answers_def)
  let ?bad = "(answers VK_SUCCESS VK_SUCCESS)\<lparr>vkBeginCommandBuffer_result := - 1\<rparr>"
  have "fst (acquireNextImage_result ?bad) = VK_SUCCESS"
    "vkBeginCommandBuffer_result ?bad \<noteq> VK_SUCCESS"
    by (simp_all add: answers_def VK_SUCCESS_def)
  with beginFrame_cases [of ?r ?bad 0] idle
  have 7: "\<exists>r'. beginFrame ?bad ?r =
            Some (Inl (runtime_error ''failed to begin recording command buffer!''), r') \<and>
          isFrameStarted r'"
    by blast
  from 1 2 3 4 5 6 7 show ?thesis by (intro conjI)
qed

section \<open>renderer::endFrame\<close>

lemma VK_distinct:
  "VK_SUCCESS \<noteq> VK_ERROR_OUT_OF_DATE_KHR" "VK_SUCCESS \<noteq> VK_SUBOPTIMAL_KHR"
  "VK_SUBOPTIMAL_KHR \<noteq> VK_ERROR_OUT_OF_DATE_KHR"
  by (simp_all add: VK_SUCCESS_def VK_SUBOPTIMAL_KHR_def VK_ERROR_OUT_OF_DATE_KHR_def)

lemma endFrame_end_Inl: "endFrame_end M r \<noteq> (Inr commandBuffer, r')"
  by (simp add: endFrame_end_def Let_def)

lemma endFrame_end_advances:
  assumes "M \<noteq> 0" and "currentFrameIndex r < INT_MAX"
  shows "endFrame_end M r =
     (Inl undefined_behaviour,
      r\<lparr>isFrameStarted := False, currentFrameIndex := (currentFrameIndex r + 1) smod M\<rparr>)"
  using assms by (simp add: endFrame_end_def Let_def)

lemma endFrame_unfold:
  assumes "isFrameStarted r" and "0 \<le> currentFrameIndex r"
    and "nat (currentFrameIndex r) < length (commandBuffers r)"
    and "swapchainInstance r \<noteq> None" and "vkEndCommandBuffer_result env = VK_SUCCESS"
  shows "endFrame M env r =
     (let r2 = submitted (commandBuffers r ! nat (currentFrameIndex r)) r;
          result = submitCommandBuffers_result env
      in if result = VK_ERROR_OUT_OF_DATE_KHR \<or> result = VK_SUBOPTIMAL_KHR \<or>
            framebufferResized (windowInstance r)
         then (case recreateSwapchain env
                      (resetWindowResizedFlag
                         (if result = VK_ERROR_OUT_OF_DATE_KHR \<or> result = VK_SUBOPTIMAL_KHR
                          then r2 else do_call window_wasWindowResized r2)) of
                 None \<Rightarrow> None
               | Some (Inl e, r'') \<Rightarrow> Some (Inl e, r'')
               | Some (Inr u, r'') \<Rightarrow> Some (endFrame_end M r''))
         else if result \<noteq> VK_SUCCESS
         then Some (Inl (runtime_error ''failed to present swap chain image!''),
                    do_call window_wasWindowResized r2)
         else Some (endFrame_end M (do_call window_wasWindowResized r2)))"
proof -
  from assms(4) obtain sc where sc: "swapchainInstance r = Some sc" by blast
  show ?thesis
  proof (cases "submitCommandBuffers_result env = VK_ERROR_OUT_OF_DATE_KHR \<or>
      submitCommandBuffers_result env = VK_SUBOPTIMAL_KHR")
    case True
    with assms sc show ?thesis
      by (elim disjE)
        (simp_all add: endFrame_def Let_def getCurrentCommandBuffer_def submitted_def
          do_call_def)
  next
    case False
    with assms sc show ?thesis
      by (cases "framebufferResized (windowInstance r)")
        (simp_all add: endFrame_def Let_def getCurrentCommandBuffer_def submitted_def
          wasWindowResized_def do_call_def)
  qed
qed

lemma endFrame_never_returns: "endFrame M env r \<noteq> Some (Inr commandBuffer, r')"
proof
  assume a: "endFrame M env r = Some (Inr commandBuffer, r')"
  from a have s: "isFrameStarted r"
    by (auto simp: endFrame_def split: if_splits)
  from a s have i: "0 \<le> currentFrameIndex r" "nat (currentFrameIndex r) < length (commandBuffers r)"
    by (auto simp: endFrame_def getCurrentCommandBuffer_def split: if_splits)
  from a s i have e: "vkEndCommandBuffer_result env = VK_SUCCESS"
    by (auto simp: endFrame_def getCurrentCommandBuffer_def Let_def split: if_splits)
  from a s i e have sc: "swapchainInstance r \<noteq> None"
    by (auto simp: endFrame_def getCurrentCommandBuffer_def Let_def do_call_def
        split: if_splits option.splits)
  from a endFrame_unfold [OF s i sc e, of M] show False
    by (auto simp: Let_def endFrame_end_Inl split: if_splits option.splits sum.splits)
qed

lemma endFrame_plain:
  assumes "isFrameStarted r" and "0 \<le> currentFrameIndex r"
    and "nat (currentFrameIndex r) < length (commandBuffers r)"
    and "swapchainInstance r \<noteq> None" and "vkEndCommandBuffer_result env = VK_SUCCESS"
    and "submitCommandBuffers_result env = VK_SUCCESS"
    and "\<not> framebufferResized (windowInstance r)"
    and "M \<noteq> 0" and "currentFrameIndex r < INT_MAX"
  shows "endFrame M env r =
     Some (Inl undefined_behaviour,
           r\<lparr>isFrameStarted := False,
             currentFrameIndex := (currentFrameIndex r + 1) smod M,
             calls := calls r @
               [vkEndCommandBuffer (commandBuffers r ! nat (currentFrameIndex r)),
                swapchain_submitCommandBuffers (commandBuffers r ! nat (currentFrameIndex r))
                  (currentImageIndex r),
                window_wasWindowResized]\<rparr>)"
proof -
  let ?r3 = "do_call window_wasWindowResized
               (submitted (commandBuffers r ! nat (currentFrameIndex r)) r)"
  have "endFrame M env r = Some (endFrame_end M ?r3)"
    using assms(6,7) by (simp add: endFrame_unfold [OF assms(1-5)] Let_def VK_distinct)
  moreover have "currentFrameIndex ?r3 < INT_MAX"
    using assms(9) by (simp add: submitted_def do_call_def)
  ultimately have "endFrame M env r =
      Some (Inl undefined_behaviour,
            ?r3\<lparr>isFrameStarted := False, currentFrameIndex := (currentFrameIndex ?r3 + 1) smod M\<rparr>)"
    using endFrame_end_advances [OF assms(8), of ?r3] by simp
  then show ?thesis by (simp add: submitted_def do_call_def)
qed

lemma endFrame_recreates:
  assumes "isFrameStarted r" and "0 \<le> currentFrameIndex r"
    and "nat (currentFrameIndex r) < length (commandBuffers r)"
    and "swapchainInstance r \<noteq> None" and "vkEndCommandBuffer_result env = VK_SUCCESS"
    and "submitCommandBuffers_result env = VK_ERROR_OUT_OF_DATE_KHR \<or>
         submitCommandBuffers_result env = VK_SUBOPTIMAL_KHR \<or>
         framebufferResized (windowInstance r)"
    and "\<not> degenerate (extents (windowInstance r) (polls (windowInstance r) + k))"
    and "\<forall>j < k. degenerate (extents (windowInstance r) (polls (windowInstance r) + j))"
    and "compareSwapFormats_result env"
    and "M \<noteq> 0" and "currentFrameIndex r < INT_MAX"
  shows "\<exists>r'. endFrame M env r = Some (Inl undefined_behaviour, r') \<and>
     swapchainInstance r' =
       Some (swapchain (extents (windowInstance r) (polls (windowInstance r) + k))) \<and>
     \<not> framebufferResized (windowInstance r') \<and>
     \<not> isFrameStarted r' \<and>
     currentFrameIndex r' = (currentFrameIndex r + 1) smod M"
proof -
  let ?res = "submitCommandBuffers_result env"
  let ?r3 = "resetWindowResizedFlag
     (if ?res = VK_ERROR_OUT_OF_DATE_KHR \<or> ?res = VK_SUBOPTIMAL_KHR
      then submitted (commandBuffers r ! nat (currentFrameIndex r)) r
      else do_call window_wasWindowResized
             (submitted (commandBuffers r ! nat (currentFrameIndex r)) r))"
  let ?r4 = "(recreated k ?r3)\<lparr>isFrameStarted := False,
     currentFrameIndex := (currentFrameIndex (recreated k ?r3) + 1) smod M\<rparr>"
  have w: "extents (windowInstance ?r3) = extents (windowInstance r)"
    "polls (windowInstance ?r3) = polls (windowInstance r)"
    "\<not> framebufferResized (windowInstance ?r3)"
    "currentFrameIndex ?r3 = currentFrameIndex r"
    "swapchainInstance ?r3 = swapchainInstance r"
    by (simp_all add: resetWindowResizedFlag_def submitted_def do_call_def)
  have "recreateSwapchain env ?r3 = Some (recreate_outcome env ?r3, recreated k ?r3)"
    using assms(7,8) by (intro recreateSwapchain_returns) (simp_all add: w(1,2))
  moreover have "recreate_outcome env ?r3 = Inr ()"
    using assms(9) by (simp add: recreate_outcome_def)
  ultimately have rec: "recreateSwapchain env ?r3 = Some (Inr (), recreated k ?r3)"
    by simp
  have "endFrame M env r = Some (endFrame_end M (recreated k ?r3))"
    using assms(6) rec
    by (simp add: endFrame_unfold [OF assms(1-5)] Let_def)
  moreover have "currentFrameIndex (recreated k ?r3) < INT_MAX"
    using assms(11) by (simp add: recreated_fields w)
  ultimately have "endFrame M env r = Some (Inl undefined_behaviour, ?r4)"
    using endFrame_end_advances [OF assms(10), of "recreated k ?r3"] by simp
  moreover have "swapchainInstance ?r4 =
       Some (swapchain (extents (windowInstance r) (polls (windowInstance r) + k)))"
    by (simp add: recreated_fields w)
  moreover have "\<not> framebufferResized (windowInstance ?r4)"
    using w(3) by (simp add: recreated_def Let_def)
  moreover have "\<not> isFrameStarted ?r4"
    by simp
  moreover have "currentFrameIndex ?r4 = (currentFrameIndex r + 1) smod M"
    by (simp add: recreated_fields w)
  ultimately show ?thesis by blast
qed

text \<open>
  C8. The claim is that a call of \<^verbatim>\<open>endFrame\<close> that does not throw completes, with
  \<^verbatim>\<open>isFrameStarted\<close> cleared and the frame-slot index advanced by one modulo
  \<^verbatim>\<open>MAX_FRAMES_IN_FLIGHT\<close>. No call of \<^verbatim>\<open>endFrame\<close> returns a command buffer. A call in a
  started frame whose submission succeeds clears \<^verbatim>\<open>isFrameStarted\<close> and advances the index,
  with or without a recreation of the swapchain, and then control flows off the end of the
  function, which is declared to return a \<^verbatim>\<open>VkCommandBuffer\<close> and has no \<^verbatim>\<open>return\<close>
  statement: the behaviour of the call is undefined.
\<close>

theorem endFrame_flows_off_its_end:
  "endFrame M env r \<noteq> Some (Inr commandBuffer, r') \<and>
   (isFrameStarted r \<and> 0 \<le> currentFrameIndex r \<and>
    nat (currentFrameIndex r) < length (commandBuffers r) \<and>
    swapchainInstance r \<noteq> None \<and> vkEndCommandBuffer_result env = VK_SUCCESS \<and>
    submitCommandBuffers_result env = VK_SUCCESS \<and>
    \<not> framebufferResized (windowInstance r) \<and>
    M \<noteq> 0 \<and> currentFrameIndex r < INT_MAX \<longrightarrow>
      endFrame M env r =
        Some (Inl undefined_behaviour,
              r\<lparr>isFrameStarted := False,
                currentFrameIndex := (currentFrameIndex r + 1) smod M,
                calls := calls r @
                  [vkEndCommandBuffer (commandBuffers r ! nat (currentFrameIndex r)),
                   swapchain_submitCommandBuffers (commandBuffers r ! nat (currentFrameIndex r))
                     (currentImageIndex r),
                   window_wasWindowResized]\<rparr>)) \<and>
   (isFrameStarted r \<and> 0 \<le> currentFrameIndex r \<and>
    nat (currentFrameIndex r) < length (commandBuffers r) \<and>
    swapchainInstance r \<noteq> None \<and> vkEndCommandBuffer_result env = VK_SUCCESS \<and>
    (submitCommandBuffers_result env = VK_ERROR_OUT_OF_DATE_KHR \<or>
     submitCommandBuffers_result env = VK_SUBOPTIMAL_KHR \<or>
     framebufferResized (windowInstance r)) \<and>
    \<not> degenerate (extents (windowInstance r) (polls (windowInstance r) + k)) \<and>
    (\<forall>j < k. degenerate (extents (windowInstance r) (polls (windowInstance r) + j))) \<and>
    compareSwapFormats_result env \<and>
    M \<noteq> 0 \<and> currentFrameIndex r < INT_MAX \<longrightarrow>
      (\<exists>r3. endFrame M env r = Some (Inl undefined_behaviour, r3) \<and>
         swapchainInstance r3 =
           Some (swapchain (extents (windowInstance r) (polls (windowInstance r) + k))) \<and>
         \<not> framebufferResized (windowInstance r3) \<and>
         \<not> isFrameStarted r3 \<and>
         currentFrameIndex r3 = (currentFrameIndex r + 1) smod M))"
proof -
  have c1: "endFrame M env r \<noteq> Some (Inr commandBuffer, r')"
    by (rule endFrame_never_returns)
  have c2: "isFrameStarted r \<and> 0 \<le> currentFrameIndex r \<and>
    nat (currentFrameIndex r) < length (commandBuffers r) \<and>
    swapchainInstance r \<noteq> None \<and> vkEndCommandBuffer_result env = VK_SUCCESS \<and>
    submitCommandBuffers_result env = VK_SUCCESS \<and>
    \<not> framebufferResized (windowInstance r) \<and>
    M \<noteq> 0 \<and> currentFrameIndex r < INT_MAX \<longrightarrow>
      endFrame M env r =
        Some (Inl undefined_behaviour,
              r\<lparr>isFrameStarted := False,
                currentFrameIndex := (currentFrameIndex r + 1) smod M,
                calls := calls r @
                  [vkEndCommandBuffer (commandBuffers r ! nat (currentFrameIndex r)),
                   swapchain_submitCommandBuffers (commandBuffers r ! nat (currentFrameIndex r))
                     (currentImageIndex r),
                   window_wasWindowResized]\<rparr>)"
    using endFrame_plain [of r env M] by blast
  have c3: "isFrameStarted r \<and> 0 \<le> currentFrameIndex r \<and>
    nat (currentFrameIndex r) < length (commandBuffers r) \<and>
    swapchainInstance r \<noteq> None \<and> vkEndCommandBuffer_result env = VK_SUCCESS \<and>
    (submitCommandBuffers_result env = VK_ERROR_OUT_OF_DATE_KHR \<or>
     submitCommandBuffers_result env = VK_SUBOPTIMAL_KHR \<or>
     framebufferResized (windowInstance r)) \<and>
    \<not> degenerate (extents (windowInstance r) (polls (windowInstance r) + k)) \<and>
    (\<forall>j < k. degenerate (extents (windowInstance r) (polls (windowInstance r) + j))) \<and>
    compareSwapFormats_result env \<and>
    M \<noteq> 0 \<and> currentFrameIndex r < INT_MAX \<longrightarrow>
      (\<exists>r3. endFrame M env r = Some (Inl undefined_behaviour, r3) \<and>
         swapchainInstance r3 =
           Some (swapchain (extents (windowInstance r) (polls (windowInstance r) + k))) \<and>
         \<not> framebufferResized (windowInstance r3) \<and>
         \<not> isFrameStarted r3 \<and>
         currentFrameIndex r3 = (currentFrameIndex r + 1) smod M)"
    using endFrame_recreates [of r env k M] by blast
  from c1 c2 c3 show ?thesis by (intro conjI)
qed

theorem endFrame_flows_off_its_end_witness:
  "endFrame 2 (answers VK_SUCCESS VK_SUCCESS) ((idle_renderer mock_window)\<lparr>isFrameStarted := True\<rparr>) =
     Some (Inl undefined_behaviour,
           (idle_renderer mock_window)
             \<lparr>isFrameStarted := False, currentFrameIndex := 1,
               calls := [vkEndCommandBuffer (handle 1),
                         swapchain_submitCommandBuffers (handle 1) 0,
                         window_wasWindowResized]\<rparr>) \<and>
   (\<exists>r3. endFrame 2 (answers VK_SUCCESS VK_SUBOPTIMAL_KHR)
            ((idle_renderer mock_window)\<lparr>isFrameStarted := True\<rparr>) =
            Some (Inl undefined_behaviour, r3) \<and>
         swapchainInstance r3 = Some (swapchain \<lparr>width = 800, height = 600\<rparr>) \<and>
         \<not> isFrameStarted r3 \<and> currentFrameIndex r3 = 1)"
proof -
  let ?idle = "idle_renderer mock_window"
  let ?busy = "?idle\<lparr>isFrameStarted := True\<rparr>"
  note f = idle_renderer_fields
  have started: "isFrameStarted ?busy" "0 \<le> currentFrameIndex ?busy"
    "nat (currentFrameIndex ?busy) < length (commandBuffers ?busy)" "swapchainInstance ?busy \<noteq> None"
    "\<not> framebufferResized (windowInstance ?busy)"
    "(2 :: int) \<noteq> 0" "currentFrameIndex ?busy < INT_MAX"
    by (simp_all add: f mock_window_def INT_MAX_def)
  have win: "\<not> degenerate (extents (windowInstance ?busy) (polls (windowInstance ?busy) + 2))"
    "\<forall>j < 2. degenerate (extents (windowInstance ?busy) (polls (windowInstance ?busy) + j))"
    using mock_window_extents(3) mock_window_first by (simp_all add: f)
  have one: "(1 :: int) smod 2 = 1" by (simp add: smod_int_alt_def)
  have ok: "vkEndCommandBuffer_result (answers VK_SUCCESS VK_SUCCESS) = VK_SUCCESS"
    "submitCommandBuffers_result (answers VK_SUCCESS VK_SUCCESS) = VK_SUCCESS"
    "vkEndCommandBuffer_result (answers VK_SUCCESS VK_SUBOPTIMAL_KHR) = VK_SUCCESS"
    "submitCommandBuffers_result (answers VK_SUCCESS VK_SUBOPTIMAL_KHR) = VK_SUBOPTIMAL_KHR"
    "compareSwapFormats_result (answers VK_SUCCESS VK_SUBOPTIMAL_KHR)"
    by (simp_all add: answers_def)
  from endFrame_flows_off_its_end [of 2 "answers VK_SUCCESS VK_SUCCESS" ?busy _ _ 0] started ok
  have "endFrame 2 (answers VK_SUCCESS VK_SUCCESS) ?busy =
        Some (Inl undefined_behaviour,
              ?busy\<lparr>isFrameStarted := False,
                currentFrameIndex := (currentFrameIndex ?busy + 1) smod 2,
                calls := calls ?busy @
                  [vkEndCommandBuffer (commandBuffers ?busy ! nat (currentFrameIndex ?busy)),
                   swapchain_submitCommandBuffers (commandBuffers ?busy ! nat (currentFrameIndex ?busy))
                     (currentImageIndex ?busy),
                   window_wasWindowResized]\<rparr>)"
    by blast
  then have 1: "endFrame 2 (answers VK_SUCCESS VK_SUCCESS) ?busy =
     Some (Inl undefined_behaviour,
           ?idle\<lparr>isFrameStarted := False, currentFrameIndex := 1,
               calls := [vkEndCommandBuffer (handle 1),
                         swapchain_submitCommandBuffers (handle 1) 0,
                         window_wasWindowResized]\<rparr>)"
    by (simp add: f one)
  from endFrame_flows_off_its_end [of 2 "answers VK_SUCCESS VK_SUBOPTIMAL_KHR" ?busy _ _ 2] started ok win
  have "\<exists>r3. endFrame 2 (answers VK_SUCCESS VK_SUBOPTIMAL_KHR) ?busy = Some (Inl undefined_behaviour, r3) \<and>
         swapchainInstance r3 =
           Some (swapchain (extents (windowInstance ?busy) (polls (windowInstance ?busy) + 2))) \<and>
         \<not> framebufferResized (windowInstance r3) \<and>
         \<not> isFrameStarted r3 \<and>
         currentFrameIndex r3 = (currentFrameIndex ?busy + 1) smod 2"
    by blast
  then obtain r3 where r3: "endFrame 2 (answers VK_SUCCESS VK_SUBOPTIMAL_KHR) ?busy =
      Some (Inl undefined_behaviour, r3)"
    "swapchainInstance r3 =
       Some (swapchain (extents (windowInstance ?busy) (polls (windowInstance ?busy) + 2)))"
    "\<not> isFrameStarted r3" "currentFrameIndex r3 = (currentFrameIndex ?busy + 1) smod 2"
    by blast
  from r3(2) have "swapchainInstance r3 = Some (swapchain \<lparr>width = 800, height = 600\<rparr>)"
    by (simp add: f mock_window_def)
  moreover from r3(4) have "currentFrameIndex r3 = 1"
    by (simp add: f one)
  ultimately have 2: "\<exists>r3. endFrame 2 (answers VK_SUCCESS VK_SUBOPTIMAL_KHR) ?busy =
           Some (Inl undefined_behaviour, r3) \<and>
         swapchainInstance r3 = Some (swapchain \<lparr>width = 800, height = 600\<rparr>) \<and>
         \<not> isFrameStarted r3 \<and> currentFrameIndex r3 = 1"
    using r3(1,3) by blast
  from 1 2 show ?thesis by (intro conjI)
qed

end
